theory Spec2Isabelle
  imports Complex_Main
begin


section \<open>Dataset classes of braindecode/datasets/base.py\<close>

text \<open>
  The module wraps recordings of the signal-processing library (mne) and rows of the
  tabular library (pandas) into indexable datasets: \<open>BaseDataset\<close> (one continuous
  recording), \<open>WindowsDataset\<close> (one windowed recording) and \<open>BaseConcatDataset\<close>
  (an ordered list of them, a subclass of torch's \<open>ConcatDataset\<close>).

  Python exceptions are values of type \<open>error\<close>; every function that can raise returns
  \<open>error + 'a\<close> with \<open>Inl\<close> for the exception. A description row is a mutable pandas
  Series shared by reference between the caller and the dataset, so rows live in a store
  (\<open>heap\<close>) and a dataset holds the address of its row.
\<close>

subsection \<open>Values, errors and Python sequences\<close>

datatype error =
    ValueError string
  | TypeError string
  | KeyError string
  | AttributeError string
  | IndexError
  | AssertionError
  | BackendError

text \<open>
  Scalar cells of a description. Python compares and hashes \<open>1\<close> and \<open>1.0\<close> alike, so
  numbers are one constructor; floats are read as exact rationals (only their equality is
  ever used). \<open>PNone\<close> is \<open>None\<close>, \<open>PNaN\<close> the missing-value marker of pandas.
\<close>

datatype pyval = PNone | PNaN | PNum rat | PStr string

text \<open>A row label of a table (the \<open>name\<close> of a Series): an integer or a string.\<close>

datatype label = LInt int | LStr string

text \<open>\<open>xs[i]\<close> on a Python list: negative indices count from the end.\<close>

definition py_getitem :: "'a list \<Rightarrow> int \<Rightarrow> error + 'a" where
  "py_getitem xs i =
     (if 0 \<le> i \<and> i < int (length xs) then Inr (xs ! nat i)
      else if i < 0 \<and> - int (length xs) \<le> i then Inr (xs ! nat (int (length xs) + i))
      else Inl IndexError)"

text \<open>\<open>len(set(xs))\<close>: the number of distinct elements.\<close>

definition len_set :: "'a list \<Rightarrow> nat" where
  "len_set xs = length (remdups xs)"

text \<open>The quoted name of an f-string, \<open>f"'{name}'"\<close>.\<close>

definition quoted :: "string \<Rightarrow> string" where
  "quoted s = [CHR 0x27] @ s @ [CHR 0x27]"

subsection \<open>The tabular backend: Series and DataFrame\<close>

text \<open>
  Modelled from the spec: the tabular library (pandas) is not part of the sources. The spec
  asks of it "single-row and multi-row labeled table types supporting field access, row
  stacking, group-by, and row selection by position". A Series is an optional name and a
  mapping from field names to cells; assigning a field updates the Series in place (here:
  in the store).
\<close>

record series =
  s_name :: "label option"
  s_items :: "string \<rightharpoonup> pyval"

type_synonym heap = "nat \<Rightarrow> series"

text \<open>Modelled from the spec: "field access" on a row, \<open>s[k] = v\<close>, \<open>k in s\<close> and \<open>s[k]\<close>.\<close>

definition series_setitem :: "series \<Rightarrow> string \<Rightarrow> pyval \<Rightarrow> series" where
  "series_setitem s k v = s\<lparr>s_items := (s_items s)(k \<mapsto> v)\<rparr>"

definition series_contains :: "series \<Rightarrow> string \<Rightarrow> bool" where
  "series_contains s k = (s_items s k \<noteq> None)"

definition series_getitem :: "series \<Rightarrow> string \<Rightarrow> error + pyval" where
  "series_getitem s k = (case s_items s k of None \<Rightarrow> Inl (KeyError k) | Some v \<Rightarrow> Inr v)"

text \<open>
  Modelled from the spec: a DataFrame is a list of labelled rows. A column exists when some
  row has the field; a row without the field holds the missing value in that column.
\<close>

type_synonym dataframe = "(label \<times> (string \<rightharpoonup> pyval)) list"

definition df_has_column :: "dataframe \<Rightarrow> string \<Rightarrow> bool" where
  "df_has_column df k = list_ex (\<lambda>lr. snd lr k \<noteq> None) df"

definition row_cell :: "(string \<rightharpoonup> pyval) \<Rightarrow> string \<Rightarrow> pyval" where
  "row_cell r k = (case r k of None \<Rightarrow> PNaN | Some v \<Rightarrow> v)"

text \<open>
  Modelled from the spec: "row selection by position", \<open>df.iloc[i]\<close>: the row as a
  Series over the columns of the table; a position outside the table is an IndexError.
\<close>

definition df_iloc :: "dataframe \<Rightarrow> int \<Rightarrow> error + series" where
  "df_iloc df i =
     (case py_getitem df i of
        Inl e \<Rightarrow> Inl e
      | Inr lr \<Rightarrow>
          Inr \<lparr>s_name = Some (fst lr),
               s_items = (\<lambda>k. if df_has_column df k then Some (row_cell (snd lr) k) else None)\<rparr>)"

text \<open>
  Modelled from the spec: "field access" with a list of fields, \<open>s[keys].to_list()\<close>:
  the cells of the listed fields, a KeyError when one is missing.
\<close>

fun series_getitems :: "series \<Rightarrow> string list \<Rightarrow> error + pyval list" where
  "series_getitems s [] = Inr []"
| "series_getitems s (k # ks) =
     (case series_getitem s k of
        Inl e \<Rightarrow> Inl e
      | Inr v \<Rightarrow> (case series_getitems s ks of Inl e \<Rightarrow> Inl e | Inr vs \<Rightarrow> Inr (v # vs)))"

text \<open>
  Modelled from the spec: "field access" on a table, \<open>df[k] = v\<close> with a scalar \<open>v\<close>:
  every row gets the value.
\<close>

definition df_set_column :: "dataframe \<Rightarrow> string \<Rightarrow> pyval \<Rightarrow> dataframe" where
  "df_set_column df k v = map (\<lambda>lr. (fst lr, (snd lr)(k \<mapsto> v))) df"

subsection \<open>The signal backend: continuous and windowed recordings\<close>

text \<open>
  Modelled from the spec: the signal-processing library (mne) is not part of the sources.
  A continuous recording has a sampling rate, channel names and one column of channel
  values per time sample; its length and the length of its time axis are the number of
  samples. Reading sample \<open>i\<close> is defined for \<open>0 \<le> i < n\<close>; what the backend does with
  any other index is its own business ("out-of-range indices propagate the backend's own
  error") and is the single value \<open>BackendError\<close> here.
\<close>

record raw =
  raw_sfreq :: rat
  raw_ch_names :: "string list"
  raw_data :: "rat list list"

text \<open>
  Modelled from the spec: \<open>len(raw)\<close>, \<open>len(raw.times)\<close> and \<open>raw[:, i][0]\<close> of the
  signal backend ("\<open>[channels, sample_range] \<rightarrow> data\<close>", "\<open>.length\<close>").
\<close>

definition raw_len :: "raw \<Rightarrow> nat" where
  "raw_len r = length (raw_data r)"

definition raw_times_len :: "raw \<Rightarrow> nat" where
  "raw_times_len r = length (raw_data r)"

definition raw_getitem :: "raw \<Rightarrow> int \<Rightarrow> error + rat list" where
  "raw_getitem r i =
     (if 0 \<le> i \<and> i < int (length (raw_data r)) then Inr (raw_data r ! nat i)
      else Inl BackendError)"

text \<open>
  Modelled from the spec: a windowed recording is "an ordered sequence of fixed-length,
  multi-channel segments, each with an associated event record and per-segment metadata
  table". \<open>ep_times\<close> is the time axis of one segment.
\<close>

record epochs =
  ep_sfreq :: rat
  ep_ch_names :: "string list"
  ep_times :: "rat list"
  ep_events :: "(int \<times> int \<times> int) list"
  ep_data :: "rat list list list"
  ep_metadata :: dataframe

text \<open>Modelled from the spec: "\<open>.get_segment_data(index)\<close>", \<open>windows.get_data(item=i)[0]\<close>.\<close>

definition epochs_get_data :: "epochs \<Rightarrow> int \<Rightarrow> error + rat list list" where
  "epochs_get_data w i =
     (if 0 \<le> i \<and> i < int (length (ep_data w)) then Inr (ep_data w ! nat i)
      else Inl BackendError)"

subsection \<open>BaseDataset\<close>

text \<open>
  The argument passed as \<open>description\<close>: a reference to a Series, or something that is
  not a Series (a DataFrame, anything else).
\<close>

datatype pyobj = PySeries nat | PyDataFrame dataframe | PyOther

record base_dataset =
  bd_raw :: raw
  bd_description :: nat
  bd_target :: pyval

text \<open>What \<open>__getitem__\<close> of a dataset returns: a pair or a triple.\<close>

datatype item =
    BaseItem "rat list" pyval
  | WindowsItem "rat list list" pyval "pyval list"

text \<open>
  The \<open>description\<close> property (lines 48-52): two in-place assignments to the stored row,
  then the stored row itself is returned (its address).
\<close>

definition BaseDataset_description :: "heap \<Rightarrow> base_dataset \<Rightarrow> nat \<times> heap" where
  "BaseDataset_description h ds =
     (let a = bd_description ds;
          h1 = h(a := series_setitem (h a) ''sfreq'' (PNum (raw_sfreq (bd_raw ds))));
          h2 = h1(a := series_setitem (h1 a) ''n_channels''
                         (PNum (of_nat (length (raw_ch_names (bd_raw ds))))))
      in (a, h2))"

text \<open>The setter (lines 54-59).\<close>

definition BaseDataset_set_description :: "base_dataset \<Rightarrow> pyobj \<Rightarrow> error + base_dataset" where
  "BaseDataset_set_description ds desc =
     (case desc of
        PySeries a \<Rightarrow> Inr (ds\<lparr>bd_description := a\<rparr>)
      | _ \<Rightarrow> Inl (TypeError ''description must be a pandas Series, got {type(desc)}.''))"

text \<open>
  The constructor (lines 31-40). The membership test of line 37 and the lookup of line 38
  both go through the property, so each refreshes the row first.
\<close>

definition BaseDataset_init ::
  "heap \<Rightarrow> raw \<Rightarrow> pyobj \<Rightarrow> string option \<Rightarrow> (error + base_dataset) \<times> heap" where
  "BaseDataset_init h r description target_name =
     (case BaseDataset_set_description \<lparr>bd_raw = r, bd_description = 0, bd_target = PNone\<rparr>
             description of
        Inl e \<Rightarrow> (Inl e, h)
      | Inr ds \<Rightarrow>
          (case target_name of
             None \<Rightarrow> (Inr (ds\<lparr>bd_target := PNone\<rparr>), h)
           | Some t \<Rightarrow>
               (let (a1, h1) = BaseDataset_description h ds in
                if series_contains (h1 a1) t then
                  (let (a2, h2) = BaseDataset_description h1 ds in
                   case series_getitem (h2 a2) t of
                     Inl e \<Rightarrow> (Inl e, h2)
                   | Inr v \<Rightarrow> (Inr (ds\<lparr>bd_target := v\<rparr>), h2))
                else (Inl (ValueError (quoted t @ '' not in description.'')), h1))))"

definition BaseDataset_getitem :: "base_dataset \<Rightarrow> int \<Rightarrow> error + item" where
  "BaseDataset_getitem ds index =
     (case raw_getitem (bd_raw ds) index of
        Inl e \<Rightarrow> Inl e
      | Inr x \<Rightarrow> Inr (BaseItem x (bd_target ds)))"

definition BaseDataset_len :: "base_dataset \<Rightarrow> nat" where
  "BaseDataset_len ds = raw_len (bd_raw ds)"

subsection \<open>WindowsDataset\<close>

record windows_dataset =
  wd_windows :: epochs
  wd_description :: nat

definition md_keys :: "string list" where
  "md_keys = [''i_supercrop_in_trial'', ''i_start_in_trial'', ''i_stop_in_trial'']"

definition WindowsDataset_description :: "heap \<Rightarrow> windows_dataset \<Rightarrow> nat \<times> heap" where
  "WindowsDataset_description h ds =
     (let a = wd_description ds;
          h1 = h(a := series_setitem (h a) ''sfreq'' (PNum (ep_sfreq (wd_windows ds))));
          h2 = h1(a := series_setitem (h1 a) ''n_channels''
                         (PNum (of_nat (length (ep_ch_names (wd_windows ds))))))
      in (a, h2))"

definition WindowsDataset_set_description ::
  "windows_dataset \<Rightarrow> pyobj \<Rightarrow> error + windows_dataset" where
  "WindowsDataset_set_description ds desc =
     (case desc of
        PySeries a \<Rightarrow> Inr (ds\<lparr>wd_description := a\<rparr>)
      | _ \<Rightarrow> Inl (TypeError ''description must be a pandas Series, got {type(desc)}.''))"

definition WindowsDataset_init :: "epochs \<Rightarrow> pyobj \<Rightarrow> error + windows_dataset" where
  "WindowsDataset_init w description =
     WindowsDataset_set_description \<lparr>wd_windows = w, wd_description = 0\<rparr> description"

text \<open>\<open>__getitem__\<close> (lines 78-81), in the order the source evaluates it.\<close>

definition WindowsDataset_getitem :: "windows_dataset \<Rightarrow> int \<Rightarrow> error + item" where
  "WindowsDataset_getitem ds index =
     (case epochs_get_data (wd_windows ds) index of
        Inl e \<Rightarrow> Inl e
      | Inr x \<Rightarrow>
          (case df_iloc (ep_metadata (wd_windows ds)) index of
             Inl e \<Rightarrow> Inl e
           | Inr md \<Rightarrow>
               (case series_getitem md ''target'' of
                  Inl e \<Rightarrow> Inl e
                | Inr y \<Rightarrow>
                    (case series_getitems md md_keys of
                       Inl e \<Rightarrow> Inl e
                     | Inr ks \<Rightarrow> Inr (WindowsItem x y ks)))))"

definition WindowsDataset_len :: "windows_dataset \<Rightarrow> nat" where
  "WindowsDataset_len ds = length (ep_events (wd_windows ds))"

subsection \<open>Datasets of either kind\<close>

datatype dataset = Base base_dataset | Windows windows_dataset

definition dataset_len :: "dataset \<Rightarrow> nat" where
  "dataset_len d = (case d of Base b \<Rightarrow> BaseDataset_len b | Windows w \<Rightarrow> WindowsDataset_len w)"

definition dataset_getitem :: "dataset \<Rightarrow> int \<Rightarrow> error + item" where
  "dataset_getitem d i =
     (case d of Base b \<Rightarrow> BaseDataset_getitem b i | Windows w \<Rightarrow> WindowsDataset_getitem w i)"

definition dataset_description :: "heap \<Rightarrow> dataset \<Rightarrow> nat \<times> heap" where
  "dataset_description h d =
     (case d of
        Base b \<Rightarrow> BaseDataset_description h b
      | Windows w \<Rightarrow> WindowsDataset_description h w)"

text \<open>\<open>hasattr(ds, 'raw')\<close> and \<open>getattr(ds, ds_type)\<close> for the two names the source uses.\<close>

datatype backend = BRaw raw | BEpochs epochs

definition hasattr_raw :: "dataset \<Rightarrow> bool" where
  "hasattr_raw d = (case d of Base b \<Rightarrow> True | Windows w \<Rightarrow> False)"

definition getattr_backend :: "dataset \<Rightarrow> string \<Rightarrow> error + backend" where
  "getattr_backend d name =
     (case d of
        Base b \<Rightarrow> if name = ''raw'' then Inr (BRaw (bd_raw b)) else Inl (AttributeError name)
      | Windows w \<Rightarrow>
          if name = ''windows'' then Inr (BEpochs (wd_windows w)) else Inl (AttributeError name))"

definition info_sfreq :: "backend \<Rightarrow> rat" where
  "info_sfreq b = (case b of BRaw r \<Rightarrow> raw_sfreq r | BEpochs w \<Rightarrow> ep_sfreq w)"

definition len_ch_names :: "backend \<Rightarrow> nat" where
  "len_ch_names b =
     (case b of BRaw r \<Rightarrow> length (raw_ch_names r) | BEpochs w \<Rightarrow> length (ep_ch_names w))"

definition len_times :: "backend \<Rightarrow> nat" where
  "len_times b = (case b of BRaw r \<Rightarrow> raw_times_len r | BEpochs w \<Rightarrow> length (ep_times w))"

subsection \<open>ConcatDataset, the superclass\<close>

text \<open>
  Modelled from the spec: \<open>torch.utils.data.ConcatDataset\<close>, from which
  \<open>BaseConcatDataset\<close> inherits its constructor, \<open>__len__\<close> and \<open>__getitem__\<close>, is
  not part of the sources. The spec: construction "requires non-empty"; "a global index is
  resolved to (child, local index) by cumulative-length lookup; length is the sum of child
  lengths"; \<open>get(i)\<close> "resolves \<open>i\<close> to \<open>(child_index, local_index)\<close> via prefix-sum search
  over child lengths, then returns \<open>child[local_index]\<close>. Fails with an index error if
  \<open>i\<close> is out of the aggregate range". The definitions below take the shape the library
  gives to these words: the running sums of the child lengths are stored at construction,
  the length is the last of them, and an index is located by bisection in them (a negative
  index counts from the end).
\<close>

text \<open>
  Modelled from the spec: the running sums of the child lengths ("cumulative-length
  lookup"), as the superclass computes them at construction.
\<close>

fun cumsum_from :: "nat \<Rightarrow> nat list \<Rightarrow> nat list" where
  "cumsum_from s [] = []"
| "cumsum_from s (l # ls) = (l + s) # cumsum_from (l + s) ls"

definition cumsum :: "dataset list \<Rightarrow> nat list" where
  "cumsum sequence = cumsum_from 0 (map dataset_len sequence)"

text \<open>
  Modelled from the spec: the "prefix-sum search", a bisection that returns the number of
  entries of a sorted list that are at most \<open>x\<close>.
\<close>

function bisect_right_loop :: "nat list \<Rightarrow> int \<Rightarrow> nat \<Rightarrow> nat \<Rightarrow> nat" where
  "bisect_right_loop a x lo hi =
     (if lo < hi then
        (let mid = (lo + hi) div 2 in
         if x < int (a ! mid) then bisect_right_loop a x lo mid
         else bisect_right_loop a x (mid + 1) hi)
      else lo)"
  by pat_completeness auto
termination
  by (relation "measure (\<lambda>(a, x, lo, hi). hi - lo)") auto

declare bisect_right_loop.simps [simp del]

definition bisect_right :: "nat list \<Rightarrow> int \<Rightarrow> nat" where
  "bisect_right a x = bisect_right_loop a x 0 (length a)"

record concat_dataset =
  datasets :: "dataset list"
  cumulative_sizes :: "nat list"
  cd_description :: dataframe

text \<open>Modelled from the spec: the inherited constructor, which "requires non-empty".\<close>

definition ConcatDataset_init :: "dataset list \<Rightarrow> error + dataset list \<times> nat list" where
  "ConcatDataset_init ds =
     (if length ds > 0 then Inr (ds, cumsum ds) else Inl AssertionError)"

text \<open>
  Modelled from the spec: the inherited \<open>__len__\<close>, "length is the sum of child
  lengths": the last running sum.
\<close>

definition ConcatDataset_len :: "concat_dataset \<Rightarrow> error + nat" where
  "ConcatDataset_len c = py_getitem (cumulative_sizes c) (- 1)"

text \<open>
  Modelled from the spec: the inherited \<open>__getitem__\<close>, which "resolves \<open>i\<close> to
  \<open>(child_index, local_index)\<close> via prefix-sum search over child lengths, then returns
  \<open>child[local_index]\<close>" and "fails with an index error if \<open>i\<close> is out of the
  aggregate range".
\<close>

definition ConcatDataset_getitem :: "concat_dataset \<Rightarrow> int \<Rightarrow> error + item" where
  "ConcatDataset_getitem c idx =
     (case (if idx < 0 then
              (case ConcatDataset_len c of
                 Inl e \<Rightarrow> Inl e
               | Inr n \<Rightarrow>
                   if - idx > int n then
                     Inl (ValueError ''absolute value of index should not exceed dataset length'')
                   else Inr (int n + idx))
            else Inr idx) of
        Inl e \<Rightarrow> Inl e
      | Inr i \<Rightarrow>
          (let dataset_idx = bisect_right (cumulative_sizes c) i;
               sample_idx =
                 (if dataset_idx = 0 then i
                  else i - int (cumulative_sizes c ! (dataset_idx - 1)))
           in case py_getitem (datasets c) (int dataset_idx) of
                Inl e \<Rightarrow> Inl e
              | Inr d \<Rightarrow> dataset_getitem d sample_idx))"

subsection \<open>BaseConcatDataset\<close>

text \<open>
  Modelled from the spec: "row stacking" of the tabular library, \<open>pd.DataFrame(rows)\<close> for
  a sequence of Series. The rows keep their order; a row is labelled by the name of its
  Series, and when no Series has a name the labels are the positions \<open>0, 1, 2, ...\<close>
  (a nameless Series among named ones is labelled \<open>Unnamed k\<close>).
\<close>

definition digit_char :: "nat \<Rightarrow> char" where
  "digit_char d = ''0123456789'' ! d"

fun py_str_nat :: "nat \<Rightarrow> string" where
  "py_str_nat count =
     (if 10 \<le> count then py_str_nat (count div 10) @ [digit_char (count mod 10)]
      else [digit_char count])"

declare py_str_nat.simps [simp del]

fun names_from_index :: "nat \<Rightarrow> series list \<Rightarrow> label list" where
  "names_from_index count [] = []"
| "names_from_index count (s # ss) =
     (case s_name s of
        Some n \<Rightarrow> n # names_from_index count ss
      | None \<Rightarrow> LStr (''Unnamed '' @ py_str_nat count) # names_from_index (count + 1) ss)"

definition DataFrame_from_series :: "series list \<Rightarrow> dataframe" where
  "DataFrame_from_series ss =
     zip (if list_ex (\<lambda>s. s_name s \<noteq> None) ss then names_from_index 0 ss
          else map (\<lambda>i. LInt (int i)) [0 ..< length ss])
         (map s_items ss)"

text \<open>
  The generator \<open>ds.description for ds in list_of_ds\<close> of line 112: every child's property
  is read in order (each read refreshes that child's row in the store); the rows are the
  Series objects themselves, so the table is built from what they hold once all reads are
  done.
\<close>

fun read_descriptions :: "heap \<Rightarrow> dataset list \<Rightarrow> nat list \<times> heap" where
  "read_descriptions h [] = ([], h)"
| "read_descriptions h (d # ds) =
     (let (a, h1) = dataset_description h d;
          (as, h2) = read_descriptions h1 ds
      in (a # as, h2))"

definition BaseConcatDataset_set_description ::
  "concat_dataset \<Rightarrow> pyobj \<Rightarrow> error + concat_dataset" where
  "BaseConcatDataset_set_description c new_desc =
     (case new_desc of
        PyDataFrame df \<Rightarrow> Inr (c\<lparr>cd_description := df\<rparr>)
      | _ \<Rightarrow> Inl (TypeError ''description must be a pandas DataFrame, got {type(new_desc)}.''))"

text \<open>The constructor (lines 110-112).\<close>

definition BaseConcatDataset_init ::
  "heap \<Rightarrow> dataset list \<Rightarrow> (error + concat_dataset) \<times> heap" where
  "BaseConcatDataset_init h list_of_ds =
     (case ConcatDataset_init list_of_ds of
        Inl e \<Rightarrow> (Inl e, h)
      | Inr (ds, cs) \<Rightarrow>
          (let (as, h1) = read_descriptions h list_of_ds
           in (BaseConcatDataset_set_description
                 \<lparr>datasets = ds, cumulative_sizes = cs, cd_description = []\<rparr>
                 (PyDataFrame (DataFrame_from_series (map h1 as))), h1)))"

text \<open>A list comprehension \<open>[f(getattr(ds, ds_type)) for ds in self.datasets]\<close>.\<close>

fun collect :: "(backend \<Rightarrow> 'a) \<Rightarrow> string \<Rightarrow> dataset list \<Rightarrow> error + 'a list" where
  "collect f ds_type [] = Inr []"
| "collect f ds_type (d # ds) =
     (case getattr_backend d ds_type of
        Inl e \<Rightarrow> Inl e
      | Inr b \<Rightarrow> (case collect f ds_type ds of Inl e \<Rightarrow> Inl e | Inr vs \<Rightarrow> Inr (f b # vs)))"

text \<open>
  The \<open>description\<close> property (lines 144-168). It returns the stored table, after the three
  checks and the three column assignments; the second component is the dataset after the
  call.
\<close>

definition BaseConcatDataset_description ::
  "concat_dataset \<Rightarrow> (error + dataframe) \<times> concat_dataset" where
  "BaseConcatDataset_description c =
     (let ds_type = (if set (map hasattr_raw (datasets c)) = {True} then ''raw'' else ''windows'')
      in case collect info_sfreq ds_type (datasets c) of
           Inl e \<Rightarrow> (Inl e, c)
         | Inr fs \<Rightarrow>
       (case collect len_ch_names ds_type (datasets c) of
           Inl e \<Rightarrow> (Inl e, c)
         | Inr n_channels \<Rightarrow>
       (case collect len_times ds_type (datasets c) of
           Inl e \<Rightarrow> (Inl e, c)
         | Inr n_times \<Rightarrow>
       if len_set fs > 1 then
         (Inl (ValueError ''Recordings have different sampling rates.''), c)
       else if len_set n_channels > 1 then
         (Inl (ValueError ''Recordings have different number of channels.''), c)
       else if len_set n_times > 1 then
         (Inl (ValueError ''Recordings have different window lengths.''), c)
       else
       (case py_getitem fs 0 of
           Inl e \<Rightarrow> (Inl e, c)
         | Inr f0 \<Rightarrow>
       (let c1 = c\<lparr>cd_description := df_set_column (cd_description c) ''sfreq'' (PNum f0)\<rparr>
        in case py_getitem n_channels 0 of
           Inl e \<Rightarrow> (Inl e, c1)
         | Inr n0 \<Rightarrow>
       (let c2 = c1\<lparr>cd_description :=
                      df_set_column (cd_description c1) ''n_channels'' (PNum (of_nat n0))\<rparr>
        in case py_getitem n_times 0 of
           Inl e \<Rightarrow> (Inl e, c2)
         | Inr t0 \<Rightarrow>
       (let c3 = c2\<lparr>cd_description :=
                      df_set_column (cd_description c2) ''n_times'' (PNum (of_nat t0))\<rparr>
        in (Inr (cd_description c3), c3))))))))"

text \<open>
  Modelled from the spec: "group-by" of the tabular library, as line 134 calls it,
  \<open>df.groupby(k).groups\<close> with the library's defaults: a KeyError when the table has no
  such column; otherwise one group per distinct value of the column, holding the labels
  of the rows with that value. Rows whose cell is missing (\<open>None\<close> or the missing-value
  marker) belong to no group, as the library leaves them out by default; grouping by
  \<open>None\<close> is a TypeError. The library orders the groups by key; here they come in the
  order of the rows, and the statements below read the result by key only.
\<close>

definition isna :: "pyval \<Rightarrow> bool" where
  "isna v = (v = PNone \<or> v = PNaN)"

definition groupby_groups ::
  "dataframe \<Rightarrow> string option \<Rightarrow> error + (pyval \<times> label list) list" where
  "groupby_groups df by =
     (case by of
        None \<Rightarrow> Inl (TypeError ''You have to supply one of by and level'')
      | Some k \<Rightarrow>
          if df_has_column df k then
            Inr (map (\<lambda>v. (v, map fst (filter (\<lambda>lr. row_cell (snd lr) k = v) df)))
                   (remdups (filter (\<lambda>v. \<not> isna v) (map (\<lambda>lr. row_cell (snd lr) k) df))))
          else Inl (KeyError k))"

text \<open>\<open>self.datasets[ds_ind]\<close> for a group member: a list is indexed by integers only.\<close>

definition datasets_getitem :: "dataset list \<Rightarrow> label \<Rightarrow> error + dataset" where
  "datasets_getitem ds ind =
     (case ind of
        LInt i \<Rightarrow> py_getitem ds i
      | LStr s \<Rightarrow> Inl (TypeError ''list indices must be integers or slices, not str''))"

fun select_datasets :: "dataset list \<Rightarrow> label list \<Rightarrow> error + dataset list" where
  "select_datasets ds [] = Inr []"
| "select_datasets ds (i # inds) =
     (case datasets_getitem ds i of
        Inl e \<Rightarrow> Inl e
      | Inr d \<Rightarrow> (case select_datasets ds inds of Inl e \<Rightarrow> Inl e | Inr sel \<Rightarrow> Inr (d # sel)))"

text \<open>
  The dictionary comprehension of lines 140-142: one new \<open>BaseConcatDataset\<close> per group,
  built in order; each construction reads the descriptions of its children.
\<close>

fun build_splits ::
  "heap \<Rightarrow> dataset list \<Rightarrow> (pyval \<times> label list) list \<Rightarrow>
     (error + (pyval \<times> concat_dataset) list) \<times> heap" where
  "build_splits h ds [] = (Inr [], h)"
| "build_splits h ds ((split_name, ds_inds) # rest) =
     (case select_datasets ds ds_inds of
        Inl e \<Rightarrow> (Inl e, h)
      | Inr sel \<Rightarrow>
          (case BaseConcatDataset_init h sel of
             (Inl e, h1) \<Rightarrow> (Inl e, h1)
           | (Inr sub, h1) \<Rightarrow>
               (case build_splits h1 ds rest of
                  (Inl e, h2) \<Rightarrow> (Inl e, h2)
                | (Inr kvs, h2) \<Rightarrow> (Inr ((split_name, sub) # kvs), h2))))"

text \<open>\<open>enumerate(split_ids)\<close>, as the groups of lines 137-138.\<close>

definition enumerate_ids :: "int list list \<Rightarrow> (pyval \<times> label list) list" where
  "enumerate_ids split_ids =
     map (\<lambda>(split_i, split). (PNum (of_nat split_i), map LInt split)) (List.enumerate 0 split_ids)"

text \<open>
  \<open>split\<close> (lines 114-142). The result is the dictionary as an association list, the
  dataset after the call (the property read of line 134 writes to its table) and the
  store.
\<close>

definition split ::
  "heap \<Rightarrow> concat_dataset \<Rightarrow> string option \<Rightarrow> int list list option \<Rightarrow>
     (error + (pyval \<times> concat_dataset) list) \<times> concat_dataset \<times> heap" where
  "split h c some_property split_ids =
     (if split_ids = None \<and> some_property = None then
        (Inl (ValueError ''Splitting requires defining ids or a property.''), c, h)
      else
        (case split_ids of
           None \<Rightarrow>
             (case BaseConcatDataset_description c of
                (Inl e, c1) \<Rightarrow> (Inl e, c1, h)
              | (Inr df, c1) \<Rightarrow>
                  (case groupby_groups df some_property of
                     Inl e \<Rightarrow> (Inl e, c1, h)
                   | Inr groups \<Rightarrow>
                       (case build_splits h (datasets c1) groups of
                          (r, h1) \<Rightarrow> (r, c1, h1))))
         | Some ids \<Rightarrow>
             (case build_splits h (datasets c) (enumerate_ids ids) of
                (r, h1) \<Rightarrow> (r, c, h1))))"

section \<open>Notions used in the statements, and example data\<close>

text \<open>
  The backend of a dataset, whatever its kind, and the address of its description row.
\<close>

definition backend_of :: "dataset \<Rightarrow> backend" where
  "backend_of d = (case d of Base b \<Rightarrow> BRaw (bd_raw b) | Windows w \<Rightarrow> BEpochs (wd_windows w))"

definition desc_addr :: "dataset \<Rightarrow> nat" where
  "desc_addr d = (case d of Base b \<Rightarrow> bd_description b | Windows w \<Rightarrow> wd_description w)"

text \<open>A row after the two assignments of a dataset's \<open>description\<close> property.\<close>

definition refreshed :: "dataset \<Rightarrow> series \<Rightarrow> series" where
  "refreshed d s =
     s\<lparr>s_items := (s_items s)
          (''sfreq'' \<mapsto> PNum (info_sfreq (backend_of d)),
           ''n_channels'' \<mapsto> PNum (of_nat (len_ch_names (backend_of d))))\<rparr>"

text \<open>
  The store after the descriptions of a list of datasets have been read in order, and the
  concatenation a constructor call leaves behind in a store.
\<close>

definition refresh_all :: "heap \<Rightarrow> dataset list \<Rightarrow> heap" where
  "refresh_all h ds = snd (read_descriptions h ds)"

definition concat_of :: "heap \<Rightarrow> dataset list \<Rightarrow> concat_dataset" where
  "concat_of h ds =
     \<lparr>datasets = ds, cumulative_sizes = cumsum ds,
      cd_description = DataFrame_from_series (map (\<lambda>d. h (desc_addr d)) ds)\<rparr>"

text \<open>
  The data model asks for children of one kind: all \<open>BaseDataset\<close> or all
  \<open>WindowsDataset\<close>.
\<close>

definition same_kind :: "dataset list \<Rightarrow> bool" where
  "same_kind ds = (list_all hasattr_raw ds \<or> list_all (\<lambda>d. \<not> hasattr_raw d) ds)"

text \<open>What the children of a concatenation report, in order.\<close>

definition sfreqs :: "concat_dataset \<Rightarrow> rat list" where
  "sfreqs c = map (\<lambda>d. info_sfreq (backend_of d)) (datasets c)"

definition channel_counts :: "concat_dataset \<Rightarrow> nat list" where
  "channel_counts c = map (\<lambda>d. len_ch_names (backend_of d)) (datasets c)"

definition time_lengths :: "concat_dataset \<Rightarrow> nat list" where
  "time_lengths c = map (\<lambda>d. len_times (backend_of d)) (datasets c)"

text \<open>
  The children at the indices of a group, in the order given; the groups of an explicit
  split with their positions as keys; and the dictionary the comprehension of lines
  140-142 builds from selected children, each value constructed in the store its
  predecessors left behind.
\<close>

definition pick :: "dataset list \<Rightarrow> int list \<Rightarrow> dataset list" where
  "pick ds g = map (\<lambda>i. ds ! nat i) g"

definition index_groups :: "dataset list \<Rightarrow> int list list \<Rightarrow> (pyval \<times> dataset list) list" where
  "index_groups ds ids = map (\<lambda>(i, g). (PNum (of_nat i), pick ds g)) (List.enumerate 0 ids)"

fun built_splits :: "heap \<Rightarrow> (pyval \<times> dataset list) list \<Rightarrow> (pyval \<times> concat_dataset) list" where
  "built_splits h [] = []"
| "built_splits h ((k, sel) # rest) =
     (k, concat_of (refresh_all h sel) sel) # built_splits (refresh_all h sel) rest"

text \<open>
  The positions of the rows of a table whose cell in column \<open>p\<close> is \<open>v\<close>: the members
  of the group of \<open>v\<close>.
\<close>

definition group_members :: "dataframe \<Rightarrow> string \<Rightarrow> pyval \<Rightarrow> nat list" where
  "group_members df p v = filter (\<lambda>i. row_cell (snd (df ! i)) p = v) [0 ..< length df]"

text \<open>
  The groups of a split by property \<open>p\<close>: for every distinct value of the column that is
  not missing, the children at the positions of the rows holding it.
\<close>

definition property_groups ::
  "dataset list \<Rightarrow> dataframe \<Rightarrow> string \<Rightarrow> (pyval \<times> dataset list) list" where
  "property_groups ds df p =
     map (\<lambda>v. (v, map (\<lambda>i. ds ! i) (group_members df p v)))
       (remdups (filter (\<lambda>v. \<not> isna v) (map (\<lambda>lr. row_cell (snd lr) p) df)))"

text \<open>The last dataset of a list whose description row lives at a given address.\<close>

fun last_writer :: "nat \<Rightarrow> dataset list \<Rightarrow> dataset option" where
  "last_writer a [] = None"
| "last_writer a (d # ds) =
     (case last_writer a ds of
        None \<Rightarrow> if desc_addr d = a then Some d else None
      | Some d' \<Rightarrow> Some d')"

text \<open>
  Prefix-sum resolution, in the words of the spec: walk the child lengths in order; the
  index belongs to the first child whose length it is below, once the lengths of the
  children before it are subtracted.
\<close>

fun prefix_sum_resolve :: "nat list \<Rightarrow> nat \<Rightarrow> (nat \<times> nat) option" where
  "prefix_sum_resolve [] i = None"
| "prefix_sum_resolve (l # ls) i =
     (if i < l then Some (0, i)
      else (case prefix_sum_resolve ls (i - l) of
              None \<Rightarrow> None
            | Some (k, j) \<Rightarrow> Some (Suc k, j)))"

text \<open>
  A windowed recording is well formed when it has one segment and one metadata row per
  event, and its metadata table has the four columns \<open>__getitem__\<close> reads.
\<close>

definition epochs_wf :: "epochs \<Rightarrow> bool" where
  "epochs_wf w =
     (length (ep_data w) = length (ep_events w) \<and>
      length (ep_metadata w) = length (ep_events w) \<and>
      df_has_column (ep_metadata w) ''target'' \<and>
      list_all (df_has_column (ep_metadata w)) md_keys)"

text \<open>Example data: recordings, a store of description rows, a windowed recording.\<close>

definition ex_raw_a :: raw where
  "ex_raw_a =
     \<lparr>raw_sfreq = 250, raw_ch_names = [''C3'', ''C4''], raw_data = [[1, 2], [3, 4], [5, 6]]\<rparr>"

definition ex_raw_b :: raw where
  "ex_raw_b =
     \<lparr>raw_sfreq = 250, raw_ch_names = [''C3'', ''C4''], raw_data = [[7, 8], [9, 10], [11, 12]]\<rparr>"

definition ex_raw_short :: raw where
  "ex_raw_short = \<lparr>raw_sfreq = 250, raw_ch_names = [''C3'', ''C4''], raw_data = [[7, 8], [9, 10]]\<rparr>"

definition ex_raw_fast :: raw where
  "ex_raw_fast =
     \<lparr>raw_sfreq = 500, raw_ch_names = [''C3'', ''C4''], raw_data = [[0, 0], [0, 1], [1, 0]]\<rparr>"

definition ex_raw_wide :: raw where
  "ex_raw_wide =
     \<lparr>raw_sfreq = 250, raw_ch_names = [''C3'', ''C4'', ''Cz''],
      raw_data = [[0, 0, 0], [0, 1, 0], [1, 0, 0]]\<rparr>"

definition ex_heap :: heap where
  "ex_heap a =
     \<lparr>s_name = None,
      s_items = (if a = 0 then [''subject'' \<mapsto> PNum 1]
                 else if a = 1 then [''subject'' \<mapsto> PNum 2]
                 else if a = 2 then [''subject'' \<mapsto> PNum 1]
                 else Map.empty)\<rparr>"

definition ex_d0 :: dataset where
  "ex_d0 = Base \<lparr>bd_raw = ex_raw_a, bd_description = 0, bd_target = PNone\<rparr>"

definition ex_d1 :: dataset where
  "ex_d1 = Base \<lparr>bd_raw = ex_raw_b, bd_description = 1, bd_target = PNone\<rparr>"

definition ex_d2 :: dataset where
  "ex_d2 = Base \<lparr>bd_raw = ex_raw_a, bd_description = 2, bd_target = PNone\<rparr>"

definition ex_d_short :: dataset where
  "ex_d_short = Base \<lparr>bd_raw = ex_raw_short, bd_description = 1, bd_target = PNone\<rparr>"

definition ex_d_fast :: dataset where
  "ex_d_fast = Base \<lparr>bd_raw = ex_raw_fast, bd_description = 1, bd_target = PNone\<rparr>"

definition ex_d_wide :: dataset where
  "ex_d_wide = Base \<lparr>bd_raw = ex_raw_wide, bd_description = 1, bd_target = PNone\<rparr>"

definition ex_epochs :: epochs where
  "ex_epochs =
     \<lparr>ep_sfreq = 100, ep_ch_names = [''Cz''], ep_times = [0, 1 / 100],
      ep_events = [(0, 0, 1), (2, 0, 2)],
      ep_data = [[[1, 2]], [[3, 4]]],
      ep_metadata =
        [(LInt 0, [''target'' \<mapsto> PNum 1, ''i_supercrop_in_trial'' \<mapsto> PNum 0,
                   ''i_start_in_trial'' \<mapsto> PNum 0, ''i_stop_in_trial'' \<mapsto> PNum 2]),
         (LInt 1, [''target'' \<mapsto> PNum 2, ''i_supercrop_in_trial'' \<mapsto> PNum 1,
                   ''i_start_in_trial'' \<mapsto> PNum 2, ''i_stop_in_trial'' \<mapsto> PNum 4])]\<rparr>"

definition ex_epochs_long :: epochs where
  "ex_epochs_long =
     \<lparr>ep_sfreq = 100, ep_ch_names = [''Cz''], ep_times = [0, 1 / 100, 2 / 100],
      ep_events = [(0, 0, 1)],
      ep_data = [[[1, 2, 3]]],
      ep_metadata =
        [(LInt 0, [''target'' \<mapsto> PNum 1, ''i_supercrop_in_trial'' \<mapsto> PNum 0,
                   ''i_start_in_trial'' \<mapsto> PNum 0, ''i_stop_in_trial'' \<mapsto> PNum 3])]\<rparr>"

definition ex_w0 :: dataset where
  "ex_w0 = Windows \<lparr>wd_windows = ex_epochs, wd_description = 3\<rparr>"

definition ex_w1 :: dataset where
  "ex_w1 = Windows \<lparr>wd_windows = ex_epochs_long, wd_description = 4\<rparr>"

definition ex_list :: "dataset list" where
  "ex_list = [ex_d0, ex_d_short, ex_d2]"

definition ex_d_nosubject :: dataset where
  "ex_d_nosubject = Base \<lparr>bd_raw = ex_raw_b, bd_description = 5, bd_target = PNone\<rparr>"

definition ex_concat3 :: concat_dataset where
  "ex_concat3 =
     concat_of (refresh_all ex_heap [ex_d0, ex_d1, ex_d2]) [ex_d0, ex_d1, ex_d2]"

definition ex_table3 :: dataframe where
  "ex_table3 =
     df_set_column (df_set_column (df_set_column (cd_description ex_concat3)
       ''sfreq'' (PNum 250)) ''n_channels'' (PNum 2)) ''n_times'' (PNum 3)"

definition ex_concat_na :: concat_dataset where
  "ex_concat_na =
     concat_of (refresh_all ex_heap [ex_d0, ex_d_nosubject]) [ex_d0, ex_d_nosubject]"

definition ex_table_na :: dataframe where
  "ex_table_na =
     df_set_column (df_set_column (df_set_column (cd_description ex_concat_na)
       ''sfreq'' (PNum 250)) ''n_channels'' (PNum 2)) ''n_times'' (PNum 3)"

section \<open>Properties\<close>

subsection \<open>The description property of a single recording\<close>

lemma BaseDataset_description_eq:
  "BaseDataset_description h ds =
     (bd_description ds,
      h(bd_description ds := (h (bd_description ds))
          \<lparr>s_items := (s_items (h (bd_description ds)))
             (''sfreq'' \<mapsto> PNum (raw_sfreq (bd_raw ds)),
              ''n_channels'' \<mapsto> PNum (of_nat (length (raw_ch_names (bd_raw ds)))))\<rparr>))"
  by (simp add: BaseDataset_description_def series_setitem_def Let_def)

lemma WindowsDataset_description_eq:
  "WindowsDataset_description h ds =
     (wd_description ds,
      h(wd_description ds := (h (wd_description ds))
          \<lparr>s_items := (s_items (h (wd_description ds)))
             (''sfreq'' \<mapsto> PNum (ep_sfreq (wd_windows ds)),
              ''n_channels'' \<mapsto> PNum (of_nat (length (ep_ch_names (wd_windows ds)))))\<rparr>))"
  by (simp add: WindowsDataset_description_def series_setitem_def Let_def)

text \<open>
  Claim C2. Reading \<open>description\<close> of a \<open>BaseDataset\<close> or a \<open>WindowsDataset\<close> returns the
  stored row itself (its address, not a copy), after writing the backing recording's
  sampling rate and channel count into it; nothing else in the row, and no other row of the
  store, changes. After the recording is replaced, the next read writes the new
  recording's values. A field written from outside into the returned row is in the row the
  next read returns (where the two refreshed fields again hold the recording's values).
\<close>

theorem description_read_refreshes_live_row:
  "fst (BaseDataset_description h ds) = bd_description ds \<and>
   s_items (snd (BaseDataset_description h ds) (bd_description ds)) =
     (s_items (h (bd_description ds)))
       (''sfreq'' \<mapsto> PNum (raw_sfreq (bd_raw ds)),
        ''n_channels'' \<mapsto> PNum (of_nat (length (raw_ch_names (bd_raw ds))))) \<and>
   s_name (snd (BaseDataset_description h ds) (bd_description ds)) = s_name (h (bd_description ds)) \<and>
   (snd (BaseDataset_description h ds)) (bd_description ds := h (bd_description ds)) = h \<and>
   s_items (snd (BaseDataset_description (snd (BaseDataset_description h ds)) (ds\<lparr>bd_raw := r\<rparr>))
              (bd_description ds)) =
     (s_items (h (bd_description ds)))
       (''sfreq'' \<mapsto> PNum (raw_sfreq r),
        ''n_channels'' \<mapsto> PNum (of_nat (length (raw_ch_names r)))) \<and>
   fst (BaseDataset_description
          ((snd (BaseDataset_description h ds))
             (bd_description ds :=
                series_setitem (snd (BaseDataset_description h ds) (bd_description ds)) k v)) ds)
     = bd_description ds \<and>
   s_items (snd (BaseDataset_description
          ((snd (BaseDataset_description h ds))
             (bd_description ds :=
                series_setitem (snd (BaseDataset_description h ds) (bd_description ds)) k v)) ds)
        (bd_description ds)) =
     (s_items (h (bd_description ds)))
       (k \<mapsto> v,
        ''sfreq'' \<mapsto> PNum (raw_sfreq (bd_raw ds)),
        ''n_channels'' \<mapsto> PNum (of_nat (length (raw_ch_names (bd_raw ds))))) \<and>
   fst (WindowsDataset_description h wds) = wd_description wds \<and>
   s_items (snd (WindowsDataset_description h wds) (wd_description wds)) =
     (s_items (h (wd_description wds)))
       (''sfreq'' \<mapsto> PNum (ep_sfreq (wd_windows wds)),
        ''n_channels'' \<mapsto> PNum (of_nat (length (ep_ch_names (wd_windows wds))))) \<and>
   s_name (snd (WindowsDataset_description h wds) (wd_description wds)) = s_name (h (wd_description wds)) \<and>
   (snd (WindowsDataset_description h wds)) (wd_description wds := h (wd_description wds)) = h \<and>
   s_items (snd (WindowsDataset_description (snd (WindowsDataset_description h wds))
                   (wds\<lparr>wd_windows := w\<rparr>)) (wd_description wds)) =
     (s_items (h (wd_description wds)))
       (''sfreq'' \<mapsto> PNum (ep_sfreq w),
        ''n_channels'' \<mapsto> PNum (of_nat (length (ep_ch_names w)))) \<and>
   fst (WindowsDataset_description
          ((snd (WindowsDataset_description h wds))
             (wd_description wds :=
                series_setitem (snd (WindowsDataset_description h wds) (wd_description wds)) k v)) wds)
     = wd_description wds \<and>
   s_items (snd (WindowsDataset_description
          ((snd (WindowsDataset_description h wds))
             (wd_description wds :=
                series_setitem (snd (WindowsDataset_description h wds) (wd_description wds)) k v)) wds)
        (wd_description wds)) =
     (s_items (h (wd_description wds)))
       (k \<mapsto> v,
        ''sfreq'' \<mapsto> PNum (ep_sfreq (wd_windows wds)),
        ''n_channels'' \<mapsto> PNum (of_nat (length (ep_ch_names (wd_windows wds)))))"
  by (auto simp: BaseDataset_description_def WindowsDataset_description_def series_setitem_def
        Let_def fun_eq_iff)

subsection \<open>Construction of a BaseDataset\<close>

text \<open>
  Claim C3, as the source has it. The target field is looked up in the row as the
  \<open>description\<close> property returns it, that is, after the refresh. A name other than
  \<open>sfreq\<close> and \<open>n_channels\<close> that is not a field of the supplied row makes the
  construction fail with the ValueError naming it, and no dataset is returned; a field of
  the supplied row other than these two gives its value as target; for \<open>sfreq\<close> and
  \<open>n_channels\<close> the construction succeeds whatever the supplied row holds, and the
  target is the recording's sampling rate or channel count; without a name the target is
  \<open>None\<close>. Assigning a new description keeps the target, and \<open>__getitem__\<close> returns the
  stored target.
\<close>

theorem target_field_checked_on_refreshed_row:
  "(t \<noteq> ''sfreq'' \<and> t \<noteq> ''n_channels'' \<and> \<not> series_contains (h a) t \<longrightarrow>
      fst (BaseDataset_init h r (PySeries a) (Some t)) =
        Inl (ValueError (quoted t @ '' not in description.''))) \<and>
   (t \<noteq> ''sfreq'' \<and> t \<noteq> ''n_channels'' \<and> s_items (h a) t = Some v \<longrightarrow>
      fst (BaseDataset_init h r (PySeries a) (Some t)) =
        Inr \<lparr>bd_raw = r, bd_description = a, bd_target = v\<rparr>) \<and>
   fst (BaseDataset_init h r (PySeries a) (Some ''sfreq'')) =
     Inr \<lparr>bd_raw = r, bd_description = a, bd_target = PNum (raw_sfreq r)\<rparr> \<and>
   fst (BaseDataset_init h r (PySeries a) (Some ''n_channels'')) =
     Inr \<lparr>bd_raw = r, bd_description = a,
          bd_target = PNum (of_nat (length (raw_ch_names r)))\<rparr> \<and>
   fst (BaseDataset_init h r (PySeries a) None) =
     Inr \<lparr>bd_raw = r, bd_description = a, bd_target = PNone\<rparr> \<and>
   (BaseDataset_set_description ds obj = Inr ds' \<longrightarrow> bd_target ds' = bd_target ds) \<and>
   (BaseDataset_getitem ds i = Inr (BaseItem x y) \<longrightarrow> y = bd_target ds)"
  by (auto simp: BaseDataset_init_def BaseDataset_description_eq BaseDataset_set_description_def
        series_contains_def series_getitem_def BaseDataset_getitem_def
        split: pyobj.splits sum.splits)

theorem target_field_checked_on_refreshed_row_witness:
  "\<not> series_contains (ex_heap 0) ''age'' \<and>
   fst (BaseDataset_init ex_heap ex_raw_a (PySeries 0) (Some ''age'')) =
     Inl (ValueError (quoted ''age'' @ '' not in description.'')) \<and>
   s_items (ex_heap 0) ''subject'' = Some (PNum 1) \<and>
   fst (BaseDataset_init ex_heap ex_raw_a (PySeries 0) (Some ''subject'')) =
     Inr \<lparr>bd_raw = ex_raw_a, bd_description = 0, bd_target = PNum 1\<rparr> \<and>
   BaseDataset_set_description \<lparr>bd_raw = ex_raw_a, bd_description = 0, bd_target = PNum 1\<rparr>
     (PySeries 1) = Inr \<lparr>bd_raw = ex_raw_a, bd_description = 1, bd_target = PNum 1\<rparr> \<and>
   BaseDataset_getitem \<lparr>bd_raw = ex_raw_a, bd_description = 0, bd_target = PNum 1\<rparr> 1 =
     Inr (BaseItem [3, 4] (PNum 1))"
  using target_field_checked_on_refreshed_row
    [of "''age''" ex_heap 0 ex_raw_a "PNum 1"
        "\<lparr>bd_raw = ex_raw_a, bd_description = 0, bd_target = PNum 1\<rparr>" "PySeries 1"
        "\<lparr>bd_raw = ex_raw_a, bd_description = 1, bd_target = PNum 1\<rparr>" 1 "[3, 4]" "PNum 1"]
    target_field_checked_on_refreshed_row
    [of "''subject''" ex_heap 0 ex_raw_a "PNum 1"]
  by (simp add: ex_heap_def series_contains_def BaseDataset_set_description_def
        BaseDataset_getitem_def raw_getitem_def ex_raw_a_def)

text \<open>
  The claim as written fails for the two refreshed fields: \<open>sfreq\<close> is not a field of
  the supplied row, and the construction succeeds with the sampling rate as target.
\<close>

theorem absent_target_sfreq_counterexample:
  "\<not> series_contains (ex_heap 0) ''sfreq'' \<and>
   fst (BaseDataset_init ex_heap ex_raw_a (PySeries 0) (Some ''sfreq'')) =
     Inr \<lparr>bd_raw = ex_raw_a, bd_description = 0, bd_target = PNum 250\<rparr>"
  by (simp add: BaseDataset_init_def BaseDataset_description_eq BaseDataset_set_description_def
        series_contains_def series_getitem_def ex_heap_def ex_raw_a_def)

subsection \<open>Indexing a WindowsDataset\<close>

text \<open>
  Claim C9. For a well-formed windowed recording and an index \<open>0 \<le> i < length\<close>,
  \<open>__getitem__\<close> returns the triple of the segment data at \<open>i\<close>, the \<open>target\<close> cell of
  metadata row \<open>i\<close>, and the list of the cells \<open>i_supercrop_in_trial\<close>,
  \<open>i_start_in_trial\<close>, \<open>i_stop_in_trial\<close> of that row, in this order; the length is the
  number of events, which is the number of segments.
\<close>

theorem windows_getitem_triple:
  assumes "epochs_wf (wd_windows ds)" and "0 \<le> i" and "i < int (WindowsDataset_len ds)"
  shows "WindowsDataset_getitem ds i =
           Inr (WindowsItem (ep_data (wd_windows ds) ! nat i)
                  (row_cell (snd (ep_metadata (wd_windows ds) ! nat i)) ''target'')
                  [row_cell (snd (ep_metadata (wd_windows ds) ! nat i)) ''i_supercrop_in_trial'',
                   row_cell (snd (ep_metadata (wd_windows ds) ! nat i)) ''i_start_in_trial'',
                   row_cell (snd (ep_metadata (wd_windows ds) ! nat i)) ''i_stop_in_trial'']) \<and>
         WindowsDataset_len ds = length (ep_events (wd_windows ds)) \<and>
         WindowsDataset_len ds = length (ep_data (wd_windows ds))"
  using assms
  by (simp add: WindowsDataset_getitem_def WindowsDataset_len_def epochs_wf_def
        epochs_get_data_def df_iloc_def py_getitem_def series_getitem_def md_keys_def)

theorem windows_getitem_triple_witness:
  "epochs_wf ex_epochs \<and>
   WindowsDataset_getitem \<lparr>wd_windows = ex_epochs, wd_description = 0\<rparr> 1 =
     Inr (WindowsItem [[3, 4]] (PNum 2) [PNum 1, PNum 2, PNum 4]) \<and>
   WindowsDataset_len \<lparr>wd_windows = ex_epochs, wd_description = 0\<rparr> = 2"
proof -
  have wf: "epochs_wf (wd_windows \<lparr>wd_windows = ex_epochs, wd_description = 0\<rparr>)"
    by (simp add: epochs_wf_def ex_epochs_def df_has_column_def md_keys_def)
  have len: "(1::int) < int (WindowsDataset_len \<lparr>wd_windows = ex_epochs, wd_description = 0\<rparr>)"
    by (simp add: WindowsDataset_len_def ex_epochs_def)
  show ?thesis
    using windows_getitem_triple [OF wf _ len] wf
    by (simp add: ex_epochs_def row_cell_def)
qed

subsection \<open>Construction of a concatenation\<close>

lemma dataset_description_eq:
  "dataset_description h d = (desc_addr d, h(desc_addr d := refreshed d (h (desc_addr d))))"
  by (cases d)
     (simp_all add: dataset_description_def desc_addr_def refreshed_def backend_of_def
        BaseDataset_description_def WindowsDataset_description_def series_setitem_def
        info_sfreq_def len_ch_names_def Let_def)

lemma read_descriptions_fst: "fst (read_descriptions h ds) = map desc_addr ds"
  by (induction ds arbitrary: h) (simp_all add: dataset_description_eq case_prod_beta)

lemma refresh_all_Nil: "refresh_all h [] = h"
  by (simp add: refresh_all_def)

lemma refresh_all_Cons:
  "refresh_all h (d # ds) = refresh_all (h(desc_addr d := refreshed d (h (desc_addr d)))) ds"
  by (simp add: refresh_all_def dataset_description_eq case_prod_beta)

lemma read_descriptions_eq: "read_descriptions h ds = (map desc_addr ds, refresh_all h ds)"
  using read_descriptions_fst [of h ds] by (simp add: refresh_all_def prod_eq_iff)

lemma BaseConcatDataset_init_eq:
  "ds \<noteq> [] \<Longrightarrow>
   BaseConcatDataset_init h ds = (Inr (concat_of (refresh_all h ds) ds), refresh_all h ds)"
  by (simp add: BaseConcatDataset_init_def ConcatDataset_init_def read_descriptions_eq
        BaseConcatDataset_set_description_def concat_of_def comp_def)

lemma BaseConcatDataset_init_Nil: "BaseConcatDataset_init h [] = (Inl AssertionError, h)"
  by (simp add: BaseConcatDataset_init_def ConcatDataset_init_def)

subsection \<open>Length and indexing of a concatenation\<close>

lemma length_cumsum_from: "length (cumsum_from s ls) = length ls"
  by (induction ls arbitrary: s) simp_all

lemma cumsum_from_nth:
  "k < length ls \<Longrightarrow> cumsum_from s ls ! k = s + sum_list (take (Suc k) ls)"
proof (induction ls arbitrary: s k)
  case Nil
  then show ?case by simp
next
  case (Cons l ls)
  show ?case
  proof (cases k)
    case 0
    then show ?thesis by simp
  next
    case (Suc k')
    with Cons.prems have "k' < length ls" by simp
    from Cons.IH [OF this, of "l + s"] Suc show ?thesis by simp
  qed
qed

lemma sorted_cumsum_from: "sorted (cumsum_from s ls)"
proof -
  have "cumsum_from s ls ! i \<le> cumsum_from s ls ! j" if "i \<le> j" "j < length ls" for i j
  proof -
    have "take (Suc j) ls = take (Suc i) ls @ drop (Suc i) (take (Suc j) ls)"
      using that by (metis Suc_le_mono append_take_drop_id min.absorb1 take_take)
    then have "sum_list (take (Suc i) ls) \<le> sum_list (take (Suc j) ls)"
      by (metis le_add1 sum_list_append)
    with that show ?thesis by (simp add: cumsum_from_nth)
  qed
  then show ?thesis
    by (simp add: sorted_iff_nth_mono length_cumsum_from)
qed

lemma bisect_right_loop_spec:
  assumes "sorted a" and "lo \<le> hi" and "hi \<le> length a"
    and "\<forall>i<lo. int (a ! i) \<le> x"
    and "\<forall>i. hi \<le> i \<and> i < length a \<longrightarrow> x < int (a ! i)"
  shows "(\<forall>i<bisect_right_loop a x lo hi. int (a ! i) \<le> x) \<and>
         (\<forall>i. bisect_right_loop a x lo hi \<le> i \<and> i < length a \<longrightarrow> x < int (a ! i)) \<and>
         bisect_right_loop a x lo hi \<le> length a"
  using assms
proof (induction a x lo hi rule: bisect_right_loop.induct)
  case (1 a x lo hi)
  show ?case
  proof (cases "lo < hi")
    case False
    then have "bisect_right_loop a x lo hi = lo"
      by (simp add: bisect_right_loop.simps [of a x lo hi])
    moreover from False "1.prems" have "lo = hi" by simp
    ultimately show ?thesis using "1.prems" by simp
  next
    case True
    define mid where "mid = (lo + hi) div 2"
    have mid: "lo \<le> mid" "mid < hi" using True by (simp_all add: mid_def)
    show ?thesis
    proof (cases "x < int (a ! mid)")
      case lt: True
      have upper: "\<forall>i. mid \<le> i \<and> i < length a \<longrightarrow> x < int (a ! i)"
      proof (intro allI impI)
        fix i assume i: "mid \<le> i \<and> i < length a"
        with \<open>sorted a\<close> have "a ! mid \<le> a ! i" by (simp add: sorted_iff_nth_mono)
        with lt show "x < int (a ! i)" by simp
      qed
      have "(\<forall>i<bisect_right_loop a x lo mid. int (a ! i) \<le> x) \<and>
            (\<forall>i. bisect_right_loop a x lo mid \<le> i \<and> i < length a \<longrightarrow> x < int (a ! i)) \<and>
            bisect_right_loop a x lo mid \<le> length a"
        using "1.IH"(1) [OF True mid_def lt] "1.prems" mid upper by simp
      with True lt show ?thesis
        by (simp add: bisect_right_loop.simps [of a x lo hi] mid_def Let_def)
    next
      case ge: False
      have lower: "\<forall>i<mid + 1. int (a ! i) \<le> x"
      proof (intro allI impI)
        fix i assume i: "i < mid + 1"
        with mid "1.prems" have "i \<le> mid" "mid < length a" by simp_all
        with \<open>sorted a\<close> have "a ! i \<le> a ! mid" by (simp add: sorted_iff_nth_mono)
        with ge show "int (a ! i) \<le> x" by simp
      qed
      have "(\<forall>i<bisect_right_loop a x (mid + 1) hi. int (a ! i) \<le> x) \<and>
            (\<forall>i. bisect_right_loop a x (mid + 1) hi \<le> i \<and> i < length a \<longrightarrow> x < int (a ! i)) \<and>
            bisect_right_loop a x (mid + 1) hi \<le> length a"
        using "1.IH"(2) [OF True mid_def ge] "1.prems" mid lower by simp
      with True ge show ?thesis
        by (simp add: bisect_right_loop.simps [of a x lo hi] mid_def Let_def)
    qed
  qed
qed

lemma bisect_right_spec:
  assumes "sorted a"
  shows "(\<forall>i<bisect_right a x. int (a ! i) \<le> x) \<and>
         (\<forall>i. bisect_right a x \<le> i \<and> i < length a \<longrightarrow> x < int (a ! i)) \<and>
         bisect_right a x \<le> length a"
  unfolding bisect_right_def
  by (rule bisect_right_loop_spec [OF assms]) simp_all

text \<open>The first position whose entry exceeds x is what the bisection returns.\<close>

lemma bisect_right_first_greater:
  assumes "sorted a" and "k < length a" and "x < int (a ! k)"
    and "\<forall>i<k. int (a ! i) \<le> x"
  shows "bisect_right a x = k"
proof -
  note spec = bisect_right_spec [OF assms(1), of x]
  have "\<not> k < bisect_right a x" using spec assms(3) by force
  moreover have "\<not> bisect_right a x < k"
  proof
    assume lt: "bisect_right a x < k"
    with assms(2) have "x < int (a ! bisect_right a x)" using spec by simp
    with assms(4) lt show False by force
  qed
  ultimately show ?thesis by simp
qed

lemma bisect_right_all_le:
  assumes "sorted a" and "\<forall>i<length a. int (a ! i) \<le> x"
  shows "bisect_right a x = length a"
proof -
  note spec = bisect_right_spec [OF assms(1), of x]
  have "\<not> bisect_right a x < length a"
  proof
    assume lt: "bisect_right a x < length a"
    then have "x < int (a ! bisect_right a x)" using spec by simp
    with assms(2) lt show False by force
  qed
  with spec show ?thesis by simp
qed

lemma prefix_sum_resolve_spec:
  "i < sum_list ls \<Longrightarrow>
   \<exists>k. prefix_sum_resolve ls i = Some (k, i - sum_list (take k ls)) \<and> k < length ls \<and>
       sum_list (take k ls) \<le> i \<and> i < sum_list (take (Suc k) ls)"
proof (induction ls arbitrary: i)
  case Nil
  then show ?case by simp
next
  case (Cons l ls)
  show ?case
  proof (cases "i < l")
    case True
    then show ?thesis by (intro exI [of _ 0]) simp
  next
    case False
    with Cons.prems have "i - l < sum_list ls" by simp
    from Cons.IH [OF this] obtain k where
      k: "prefix_sum_resolve ls (i - l) = Some (k, i - l - sum_list (take k ls))"
         "k < length ls" "sum_list (take k ls) \<le> i - l" "i - l < sum_list (take (Suc k) ls)"
      by blast
    with False show ?thesis by (intro exI [of _ "Suc k"]) (simp, arith)
  qed
qed

lemma sum_list_take_mono: "i \<le> j \<Longrightarrow> sum_list (take i ls) \<le> sum_list (take j (ls::nat list))"
proof -
  assume "i \<le> j"
  then have "take j ls = take i ls @ drop i (take j ls)"
    by (metis append_take_drop_id min.absorb1 take_take)
  then show ?thesis by (metis le_add1 sum_list_append)
qed

lemma ConcatDataset_getitem_resolve:
  assumes c: "datasets c = ds" "cumulative_sizes c = cumsum ds"
    and k: "k < length ds" "sum_list (take k (map dataset_len ds)) \<le> i"
           "i < sum_list (take (Suc k) (map dataset_len ds))"
  shows "ConcatDataset_getitem c (int i) =
           dataset_getitem (ds ! k) (int (i - sum_list (take k (map dataset_len ds))))"
proof -
  let ?ls = "map dataset_len ds"
  let ?a = "cumsum_from 0 ?ls"
  have len: "length ?a = length ds" by (simp add: length_cumsum_from)
  have nth: "?a ! j = sum_list (take (Suc j) ?ls)" if "j < length ds" for j
    using that by (simp add: cumsum_from_nth)
  have below: "\<forall>j<k. int (?a ! j) \<le> int i"
  proof (intro allI impI)
    fix j assume "j < k"
    then have "sum_list (take (Suc j) ?ls) \<le> sum_list (take k ?ls)"
      by (intro sum_list_take_mono) simp
    with k \<open>j < k\<close> show "int (?a ! j) \<le> int i" by (simp add: nth)
  qed
  have b: "bisect_right ?a (int i) = k"
    by (rule bisect_right_first_greater [OF sorted_cumsum_from])
       (use k below len in \<open>simp_all add: nth\<close>)
  have s0: "int i = int (i - sum_list (take k ?ls))" if "k = 0"
    using that by simp
  have s1: "int i - int (?a ! (k - Suc 0)) = int (i - sum_list (take k ?ls))" if "0 < k"
  proof -
    from that k have "?a ! (k - Suc 0) = sum_list (take k ?ls)" by (simp add: nth)
    with k show ?thesis by simp
  qed
  show ?thesis
  proof (cases "k = 0")
    case True
    with k(1) s0 show ?thesis
      by (simp add: ConcatDataset_getitem_def c cumsum_def b py_getitem_def Let_def)
  next
    case False
    with k(1) s1 show ?thesis
      by (simp add: ConcatDataset_getitem_def c cumsum_def b py_getitem_def Let_def)
  qed
qed

lemma ConcatDataset_len_eq:
  assumes "cumulative_sizes c = cumsum ds" and "ds \<noteq> []"
  shows "ConcatDataset_len c = Inr (sum_list (map dataset_len ds))"
proof -
  let ?ls = "map dataset_len ds"
  from assms(2) have pos: "0 < length ds" by simp
  then have "cumsum_from 0 ?ls ! (length ds - 1) = sum_list (take (Suc (length ds - 1)) ?ls)"
    by (simp add: cumsum_from_nth)
  with pos have "cumsum_from 0 ?ls ! (length ds - 1) = sum_list ?ls" by simp
  moreover have "nat (int (length ds) - 1) = length ds - 1" by simp
  moreover have "Suc 0 \<le> length ds" using assms(2) by (cases ds) simp_all
  ultimately show ?thesis
    by (simp add: ConcatDataset_len_def assms(1) cumsum_def py_getitem_def
        length_cumsum_from)
qed

lemma ConcatDataset_getitem_len:
  assumes c: "datasets c = ds" "cumulative_sizes c = cumsum ds"
  shows "ConcatDataset_getitem c (int (sum_list (map dataset_len ds))) = Inl IndexError"
proof -
  let ?ls = "map dataset_len ds"
  let ?a = "cumsum_from 0 ?ls"
  have "\<forall>j<length ?a. int (?a ! j) \<le> int (sum_list ?ls)"
  proof (intro allI impI)
    fix j assume "j < length ?a"
    then have j: "j < length ?ls" by (simp add: length_cumsum_from)
    have "sum_list (take (Suc j) ?ls) \<le> sum_list (take (length ?ls) ?ls)"
      using j by (intro sum_list_take_mono) simp
    with j show "int (?a ! j) \<le> int (sum_list ?ls)" by (simp add: cumsum_from_nth)
  qed
  then have "bisect_right ?a (int (sum_list ?ls)) = length ?a"
    by (rule bisect_right_all_le [OF sorted_cumsum_from])
  then show ?thesis
    by (simp add: ConcatDataset_getitem_def c cumsum_def py_getitem_def Let_def
        length_cumsum_from)
qed

text \<open>
  Claim C1. A concatenation built from a non-empty list of children exists (the
  constructor returns one); its length is the sum of the children's lengths; for every
  \<open>i\<close> below the length, prefix-sum resolution over the children's lengths gives a pair
  \<open>(k, j)\<close> and \<open>__getitem__\<close> at \<open>i\<close> is what child \<open>k\<close> returns at \<open>j\<close>; at the
  length itself \<open>__getitem__\<close> raises IndexError.
\<close>

theorem concat_len_and_getitem:
  assumes "list_of_ds \<noteq> []"
  shows "\<exists>c h'. BaseConcatDataset_init h list_of_ds = (Inr c, h') \<and>
           ConcatDataset_len c = Inr (sum_list (map dataset_len list_of_ds)) \<and>
           (\<forall>i<sum_list (map dataset_len list_of_ds).
              \<exists>k j. prefix_sum_resolve (map dataset_len list_of_ds) i = Some (k, j) \<and>
                    k < length list_of_ds \<and>
                    ConcatDataset_getitem c (int i) = dataset_getitem (list_of_ds ! k) (int j)) \<and>
           ConcatDataset_getitem c (int (sum_list (map dataset_len list_of_ds))) =
             Inl IndexError"
proof -
  let ?c = "concat_of (refresh_all h list_of_ds) list_of_ds"
  have c: "datasets ?c = list_of_ds" "cumulative_sizes ?c = cumsum list_of_ds"
    by (simp_all add: concat_of_def)
  have "\<exists>k j. prefix_sum_resolve (map dataset_len list_of_ds) i = Some (k, j) \<and>
              k < length list_of_ds \<and>
              ConcatDataset_getitem ?c (int i) = dataset_getitem (list_of_ds ! k) (int j)"
    if "i < sum_list (map dataset_len list_of_ds)" for i
  proof -
    from prefix_sum_resolve_spec [OF that] obtain k where
      k: "prefix_sum_resolve (map dataset_len list_of_ds) i =
            Some (k, i - sum_list (take k (map dataset_len list_of_ds)))"
         "k < length list_of_ds"
         "sum_list (take k (map dataset_len list_of_ds)) \<le> i"
         "i < sum_list (take (Suc k) (map dataset_len list_of_ds))"
      by auto
    from ConcatDataset_getitem_resolve [OF c k(2-4)] k(1,2) show ?thesis by blast
  qed
  with BaseConcatDataset_init_eq [OF assms, of h] ConcatDataset_len_eq [OF c(2) assms]
    ConcatDataset_getitem_len [OF c]
  show ?thesis by blast
qed

theorem concat_len_and_getitem_witness:
  "[ex_d0, ex_d_short] \<noteq> [] \<and>
   (\<exists>c h'. BaseConcatDataset_init ex_heap [ex_d0, ex_d_short] = (Inr c, h') \<and>
      ConcatDataset_len c = Inr 5 \<and>
      prefix_sum_resolve (map dataset_len [ex_d0, ex_d_short]) 4 = Some (1, 1) \<and>
      ConcatDataset_getitem c 4 = Inr (BaseItem [9, 10] PNone) \<and>
      ConcatDataset_getitem c 5 = Inl IndexError)"
proof -
  have ne: "[ex_d0, ex_d_short] \<noteq> []" by simp
  have lens: "map dataset_len [ex_d0, ex_d_short] = [3, 2]"
    by (simp add: dataset_len_def ex_d0_def ex_d_short_def BaseDataset_len_def raw_len_def
        ex_raw_a_def ex_raw_short_def)
  from concat_len_and_getitem [OF ne, of ex_heap] obtain c h' where
    c: "BaseConcatDataset_init ex_heap [ex_d0, ex_d_short] = (Inr c, h')"
       "ConcatDataset_len c = Inr (sum_list (map dataset_len [ex_d0, ex_d_short]))"
       "\<forall>i<sum_list (map dataset_len [ex_d0, ex_d_short]).
          \<exists>k j. prefix_sum_resolve (map dataset_len [ex_d0, ex_d_short]) i = Some (k, j) \<and>
                k < length [ex_d0, ex_d_short] \<and>
                ConcatDataset_getitem c (int i) = dataset_getitem ([ex_d0, ex_d_short] ! k) (int j)"
       "ConcatDataset_getitem c (int (sum_list (map dataset_len [ex_d0, ex_d_short]))) =
          Inl IndexError"
    by blast
  have r: "prefix_sum_resolve (map dataset_len [ex_d0, ex_d_short]) 4 = Some (1, 1)"
    unfolding lens by simp
  have four: "4 < sum_list (map dataset_len [ex_d0, ex_d_short])"
    unfolding lens by simp
  from c(3) four obtain k j where
    kj: "prefix_sum_resolve (map dataset_len [ex_d0, ex_d_short]) 4 = Some (k, j)"
        "ConcatDataset_getitem c (int 4) = dataset_getitem ([ex_d0, ex_d_short] ! k) (int j)"
    by blast
  from kj(1) r have "k = 1" "j = 1" by simp_all
  with kj(2) have "ConcatDataset_getitem c 4 = dataset_getitem ex_d_short 1" by simp
  then have g: "ConcatDataset_getitem c 4 = Inr (BaseItem [9, 10] PNone)"
    by (simp add: dataset_getitem_def ex_d_short_def BaseDataset_getitem_def raw_getitem_def
        ex_raw_short_def)
  from c(2) have l: "ConcatDataset_len c = Inr 5" unfolding lens by simp
  from c(4) have e: "ConcatDataset_getitem c 5 = Inl IndexError" unfolding lens by simp
  from ne c(1) l r g e show ?thesis by blast
qed

subsection \<open>The description of a concatenation\<close>

lemma collect_raw:
  "list_all hasattr_raw ds \<Longrightarrow> collect f ''raw'' ds = Inr (map (\<lambda>d. f (backend_of d)) ds)"
  by (induction ds)
     (auto simp: getattr_backend_def backend_of_def hasattr_raw_def split: dataset.splits)

lemma collect_windows:
  "list_all (\<lambda>d. \<not> hasattr_raw d) ds \<Longrightarrow>
   collect f ''windows'' ds = Inr (map (\<lambda>d. f (backend_of d)) ds)"
  by (induction ds)
     (auto simp: getattr_backend_def backend_of_def hasattr_raw_def split: dataset.splits)

lemma ds_type_raw:
  "list_all hasattr_raw ds \<Longrightarrow> ds \<noteq> [] \<Longrightarrow> set (map hasattr_raw ds) = {True}"
  by (cases ds) (auto simp: list_all_iff)

lemma ds_type_windows:
  "list_all (\<lambda>d. \<not> hasattr_raw d) ds \<Longrightarrow> set (map hasattr_raw ds) \<noteq> {True}"
  by (auto simp: list_all_iff)

lemma collect_same_kind:
  assumes "same_kind ds"
  shows "collect f (if set (map hasattr_raw ds) = {True} then ''raw'' else ''windows'') ds =
           Inr (map (\<lambda>d. f (backend_of d)) ds)"
proof (cases "ds = []")
  case True
  then show ?thesis by simp
next
  case False
  from assms consider "list_all hasattr_raw ds" | "list_all (\<lambda>d. \<not> hasattr_raw d) ds"
    by (auto simp: same_kind_def)
  then show ?thesis
  proof cases
    case 1
    show ?thesis
      unfolding ds_type_raw [OF 1 False] by (simp add: collect_raw [OF 1])
  next
    case 2
    show ?thesis
      unfolding if_not_P [OF ds_type_windows [OF 2]] by (rule collect_windows [OF 2])
  qed
qed

lemma collect_length: "collect f t ds = Inr xs \<Longrightarrow> length xs = length ds"
  by (induction ds arbitrary: xs) (auto split: sum.splits)

lemma len_set_card: "len_set xs = card (set xs)"
  by (simp add: len_set_def length_remdups_card_conv)

lemma card_gt1_iff: "1 < card (set xs) \<longleftrightarrow> (\<exists>x\<in>set xs. \<exists>y\<in>set xs. x \<noteq> y)"
proof
  assume "1 < card (set xs)"
  then obtain x where x: "x \<in> set xs" by (cases xs) auto
  show "\<exists>x\<in>set xs. \<exists>y\<in>set xs. x \<noteq> y"
  proof (rule ccontr)
    assume "\<not> ?thesis"
    with x have "set xs = {x}" by auto
    with \<open>1 < card (set xs)\<close> show False by simp
  qed
next
  assume "\<exists>x\<in>set xs. \<exists>y\<in>set xs. x \<noteq> y"
  then obtain x y where "x \<in> set xs" "y \<in> set xs" "x \<noteq> y" by blast
  then have "{x, y} \<subseteq> set xs" by simp
  then have "card {x, y} \<le> card (set xs)" by (intro card_mono) auto
  with \<open>x \<noteq> y\<close> show "1 < card (set xs)" by simp
qed

lemma description_checks:
  assumes "same_kind (datasets c)"
  shows "BaseConcatDataset_description c =
     (if 1 < card (set (sfreqs c)) then
        (Inl (ValueError ''Recordings have different sampling rates.''), c)
      else if 1 < card (set (channel_counts c)) then
        (Inl (ValueError ''Recordings have different number of channels.''), c)
      else if 1 < card (set (time_lengths c)) then
        (Inl (ValueError ''Recordings have different window lengths.''), c)
      else
        (case datasets c of
           [] \<Rightarrow> (Inl IndexError, c)
         | d # ds \<Rightarrow>
             (let df = df_set_column (df_set_column (df_set_column (cd_description c)
                         ''sfreq'' (PNum (info_sfreq (backend_of d))))
                         ''n_channels'' (PNum (of_nat (len_ch_names (backend_of d)))))
                         ''n_times'' (PNum (of_nat (len_times (backend_of d))))
              in (Inr df, c\<lparr>cd_description := df\<rparr>))))"
  unfolding BaseConcatDataset_description_def Let_def collect_same_kind [OF assms]
    sfreqs_def channel_counts_def time_lengths_def len_set_card
  by (cases "datasets c") (simp_all add: py_getitem_def)

lemma description_error_keeps_state:
  assumes "isl (fst (BaseConcatDataset_description c))"
  shows "snd (BaseConcatDataset_description c) = c"
proof -
  define t where "t = (if set (map hasattr_raw (datasets c)) = {True} then ''raw'' else ''windows'')"
  show ?thesis
  proof (cases "collect info_sfreq t (datasets c)")
    case (Inl e)
    then show ?thesis
      unfolding BaseConcatDataset_description_def Let_def t_def [symmetric] by simp
  next
    case fs: (Inr fs)
    show ?thesis
    proof (cases "collect len_ch_names t (datasets c)")
      case (Inl e)
      with fs show ?thesis
        unfolding BaseConcatDataset_description_def Let_def t_def [symmetric] by simp
    next
      case ns: (Inr ns)
      show ?thesis
      proof (cases "collect len_times t (datasets c)")
        case (Inl e)
        with fs ns show ?thesis
          unfolding BaseConcatDataset_description_def Let_def t_def [symmetric] by simp
      next
        case ts: (Inr ts)
        have len: "length ns = length fs" "length ts = length fs"
          using collect_length [OF fs] collect_length [OF ns] collect_length [OF ts] by simp_all
        show ?thesis
        proof (cases fs)
          case Nil
          with fs ns ts show ?thesis
            unfolding BaseConcatDataset_description_def Let_def t_def [symmetric]
            by (simp add: py_getitem_def)
        next
          case (Cons f0 fs')
          with len obtain n0 ns' t0 ts' where "ns = n0 # ns'" "ts = t0 # ts'"
            by (cases ns; cases ts) auto
          with Cons fs ns ts assms show ?thesis
            unfolding BaseConcatDataset_description_def Let_def t_def [symmetric]
            by (simp add: py_getitem_def split: if_splits)
        qed
      qed
    qed
  qed
qed

text \<open>
  Claim C5. For children of one kind: when they report more than one sampling rate, the
  read of \<open>description\<close> raises the ValueError about sampling rates; when the sampling
  rates agree and the channel counts differ, the one about the number of channels; when
  both agree and the lengths of the time axes differ, the one about window lengths. In
  each case the dataset, with its stored table, is as before the read; indeed whenever the
  read raises, the dataset is unchanged.
\<close>

theorem description_mismatch_value_error:
  assumes "same_kind (datasets c)"
  shows "(1 < card (set (sfreqs c)) \<longrightarrow>
            BaseConcatDataset_description c =
              (Inl (ValueError ''Recordings have different sampling rates.''), c)) \<and>
         (card (set (sfreqs c)) \<le> 1 \<and> 1 < card (set (channel_counts c)) \<longrightarrow>
            BaseConcatDataset_description c =
              (Inl (ValueError ''Recordings have different number of channels.''), c)) \<and>
         (card (set (sfreqs c)) \<le> 1 \<and> card (set (channel_counts c)) \<le> 1 \<and>
          1 < card (set (time_lengths c)) \<longrightarrow>
            BaseConcatDataset_description c =
              (Inl (ValueError ''Recordings have different window lengths.''), c)) \<and>
         (isl (fst (BaseConcatDataset_description c)) \<longrightarrow>
            snd (BaseConcatDataset_description c) = c)"
proof (intro conjI impI)
  assume "1 < card (set (sfreqs c))"
  then show "BaseConcatDataset_description c =
      (Inl (ValueError ''Recordings have different sampling rates.''), c)"
    by (simp add: description_checks [OF assms])
next
  assume "card (set (sfreqs c)) \<le> 1 \<and> 1 < card (set (channel_counts c))"
  then show "BaseConcatDataset_description c =
      (Inl (ValueError ''Recordings have different number of channels.''), c)"
    by (simp add: description_checks [OF assms])
next
  assume "card (set (sfreqs c)) \<le> 1 \<and> card (set (channel_counts c)) \<le> 1 \<and>
          1 < card (set (time_lengths c))"
  then show "BaseConcatDataset_description c =
      (Inl (ValueError ''Recordings have different window lengths.''), c)"
    by (simp add: description_checks [OF assms])
next
  assume "isl (fst (BaseConcatDataset_description c))"
  then show "snd (BaseConcatDataset_description c) = c"
    by (rule description_error_keeps_state)
qed

theorem description_mismatch_value_error_witness:
  "same_kind (datasets (concat_of ex_heap [ex_d0, ex_d_fast])) \<and>
   1 < card (set (sfreqs (concat_of ex_heap [ex_d0, ex_d_fast]))) \<and>
   BaseConcatDataset_description (concat_of ex_heap [ex_d0, ex_d_fast]) =
     (Inl (ValueError ''Recordings have different sampling rates.''),
      concat_of ex_heap [ex_d0, ex_d_fast]) \<and>
   same_kind (datasets (concat_of ex_heap [ex_d0, ex_d_wide])) \<and>
   card (set (sfreqs (concat_of ex_heap [ex_d0, ex_d_wide]))) \<le> 1 \<and>
   1 < card (set (channel_counts (concat_of ex_heap [ex_d0, ex_d_wide]))) \<and>
   BaseConcatDataset_description (concat_of ex_heap [ex_d0, ex_d_wide]) =
     (Inl (ValueError ''Recordings have different number of channels.''),
      concat_of ex_heap [ex_d0, ex_d_wide]) \<and>
   same_kind (datasets (concat_of ex_heap [ex_d0, ex_d_short])) \<and>
   card (set (sfreqs (concat_of ex_heap [ex_d0, ex_d_short]))) \<le> 1 \<and>
   card (set (channel_counts (concat_of ex_heap [ex_d0, ex_d_short]))) \<le> 1 \<and>
   1 < card (set (time_lengths (concat_of ex_heap [ex_d0, ex_d_short]))) \<and>
   BaseConcatDataset_description (concat_of ex_heap [ex_d0, ex_d_short]) =
     (Inl (ValueError ''Recordings have different window lengths.''),
      concat_of ex_heap [ex_d0, ex_d_short]) \<and>
   isl (fst (BaseConcatDataset_description (concat_of ex_heap [ex_d0, ex_d_short]))) \<and>
   snd (BaseConcatDataset_description (concat_of ex_heap [ex_d0, ex_d_short])) =
     concat_of ex_heap [ex_d0, ex_d_short]"
proof -
  have sk: "same_kind (datasets (concat_of ex_heap [ex_d0, d]))" if "hasattr_raw d" for d
    using that by (simp add: same_kind_def concat_of_def ex_d0_def hasattr_raw_def)
  have k1: "same_kind (datasets (concat_of ex_heap [ex_d0, ex_d_fast]))"
    by (rule sk) (simp add: ex_d_fast_def hasattr_raw_def)
  have k2: "same_kind (datasets (concat_of ex_heap [ex_d0, ex_d_wide]))"
    by (rule sk) (simp add: ex_d_wide_def hasattr_raw_def)
  have k3: "same_kind (datasets (concat_of ex_heap [ex_d0, ex_d_short]))"
    by (rule sk) (simp add: ex_d_short_def hasattr_raw_def)
  have f1: "sfreqs (concat_of ex_heap [ex_d0, ex_d_fast]) = [250, 500]"
    by (simp add: sfreqs_def concat_of_def backend_of_def info_sfreq_def ex_d0_def
        ex_d_fast_def ex_raw_a_def ex_raw_fast_def)
  have f2: "sfreqs (concat_of ex_heap [ex_d0, ex_d_wide]) = [250, 250]"
    by (simp add: sfreqs_def concat_of_def backend_of_def info_sfreq_def ex_d0_def
        ex_d_wide_def ex_raw_a_def ex_raw_wide_def)
  have n2: "channel_counts (concat_of ex_heap [ex_d0, ex_d_wide]) = [2, 3]"
    by (simp add: channel_counts_def concat_of_def backend_of_def len_ch_names_def ex_d0_def
        ex_d_wide_def ex_raw_a_def ex_raw_wide_def)
  have f3: "sfreqs (concat_of ex_heap [ex_d0, ex_d_short]) = [250, 250]"
    by (simp add: sfreqs_def concat_of_def backend_of_def info_sfreq_def ex_d0_def
        ex_d_short_def ex_raw_a_def ex_raw_short_def)
  have n3: "channel_counts (concat_of ex_heap [ex_d0, ex_d_short]) = [2, 2]"
    by (simp add: channel_counts_def concat_of_def backend_of_def len_ch_names_def ex_d0_def
        ex_d_short_def ex_raw_a_def ex_raw_short_def)
  have t3: "time_lengths (concat_of ex_heap [ex_d0, ex_d_short]) = [3, 2]"
    by (simp add: time_lengths_def concat_of_def backend_of_def len_times_def raw_times_len_def
        ex_d0_def ex_d_short_def ex_raw_a_def ex_raw_short_def)
  have h1: "1 < card (set (sfreqs (concat_of ex_heap [ex_d0, ex_d_fast])))"
    unfolding f1 by simp
  have h2: "card (set (sfreqs (concat_of ex_heap [ex_d0, ex_d_wide]))) \<le> 1 \<and>
            1 < card (set (channel_counts (concat_of ex_heap [ex_d0, ex_d_wide])))"
    unfolding f2 n2 by simp
  have h3: "card (set (sfreqs (concat_of ex_heap [ex_d0, ex_d_short]))) \<le> 1 \<and>
            card (set (channel_counts (concat_of ex_heap [ex_d0, ex_d_short]))) \<le> 1 \<and>
            1 < card (set (time_lengths (concat_of ex_heap [ex_d0, ex_d_short])))"
    unfolding f3 n3 t3 by simp
  note r1 = description_mismatch_value_error [OF k1]
  note r2 = description_mismatch_value_error [OF k2]
  note r3 = description_mismatch_value_error [OF k3]
  have e3: "BaseConcatDataset_description (concat_of ex_heap [ex_d0, ex_d_short]) =
     (Inl (ValueError ''Recordings have different window lengths.''),
      concat_of ex_heap [ex_d0, ex_d_short])"
    using r3 h3 by blast
  then have i3: "isl (fst (BaseConcatDataset_description (concat_of ex_heap [ex_d0, ex_d_short])))"
    by simp
  from r1 h1 r2 h2 r3 h3 i3 k1 k2 k3 show ?thesis by blast
qed

lemma all_equal_card:
  assumes "\<forall>x\<in>set xs. \<forall>y\<in>set xs. f x = f y"
  shows "\<not> 1 < card (set (map f xs))"
proof
  assume "1 < card (set (map f xs))"
  then obtain a b where "a \<in> set (map f xs)" "b \<in> set (map f xs)" "a \<noteq> b"
    unfolding card_gt1_iff by blast
  then obtain x y where "x \<in> set xs" "y \<in> set xs" "f x \<noteq> f y" by auto
  with assms show False by blast
qed

lemma differ_card:
  assumes "x \<in> set xs" "y \<in> set xs" "f x \<noteq> f y"
  shows "1 < card (set (map f xs))"
proof -
  from assms have "f x \<in> set (map f xs)" "f y \<in> set (map f xs)" by simp_all
  with assms(3) show ?thesis unfolding card_gt1_iff by blast
qed

text \<open>
  Claim C10. The check of the time-axis lengths applies to children of either kind: for
  children of one kind (all window-backed, or all raw-backed) that agree on sampling rate
  and channel count, two children whose backends report different time-axis lengths make
  the read of \<open>description\<close> raise the ValueError about different window lengths.
\<close>

theorem window_length_check_for_every_kind:
  assumes "same_kind (datasets c)"
    and "\<forall>d\<in>set (datasets c). \<forall>d'\<in>set (datasets c).
           info_sfreq (backend_of d) = info_sfreq (backend_of d') \<and>
           len_ch_names (backend_of d) = len_ch_names (backend_of d')"
    and "d1 \<in> set (datasets c)" and "d2 \<in> set (datasets c)"
    and "len_times (backend_of d1) \<noteq> len_times (backend_of d2)"
  shows "BaseConcatDataset_description c =
           (Inl (ValueError ''Recordings have different window lengths.''), c)"
proof -
  have "\<not> 1 < card (set (sfreqs c))"
    unfolding sfreqs_def using assms(2) by (intro all_equal_card) blast
  moreover have "\<not> 1 < card (set (channel_counts c))"
    unfolding channel_counts_def using assms(2) by (intro all_equal_card) blast
  moreover have "1 < card (set (time_lengths c))"
    unfolding time_lengths_def using assms(3-5) by (rule differ_card)
  ultimately show ?thesis
    by (simp add: description_checks [OF assms(1)])
qed

theorem window_length_check_for_every_kind_witness:
  "same_kind (datasets (concat_of ex_heap [ex_w0, ex_w1])) \<and>
   info_sfreq (backend_of ex_w0) = info_sfreq (backend_of ex_w1) \<and>
   len_ch_names (backend_of ex_w0) = len_ch_names (backend_of ex_w1) \<and>
   len_times (backend_of ex_w0) \<noteq> len_times (backend_of ex_w1) \<and>
   BaseConcatDataset_description (concat_of ex_heap [ex_w0, ex_w1]) =
     (Inl (ValueError ''Recordings have different window lengths.''),
      concat_of ex_heap [ex_w0, ex_w1])"
proof -
  have ds: "datasets (concat_of ex_heap [ex_w0, ex_w1]) = [ex_w0, ex_w1]"
    by (simp add: concat_of_def)
  have sk: "same_kind (datasets (concat_of ex_heap [ex_w0, ex_w1]))"
    unfolding ds by (simp add: same_kind_def ex_w0_def ex_w1_def hasattr_raw_def)
  have eq: "info_sfreq (backend_of ex_w0) = info_sfreq (backend_of ex_w1) \<and>
            len_ch_names (backend_of ex_w0) = len_ch_names (backend_of ex_w1)"
    by (simp add: backend_of_def info_sfreq_def len_ch_names_def ex_w0_def ex_w1_def
        ex_epochs_def ex_epochs_long_def)
  then have agree: "\<forall>d\<in>set (datasets (concat_of ex_heap [ex_w0, ex_w1])).
           \<forall>d'\<in>set (datasets (concat_of ex_heap [ex_w0, ex_w1])).
           info_sfreq (backend_of d) = info_sfreq (backend_of d') \<and>
           len_ch_names (backend_of d) = len_ch_names (backend_of d')"
    unfolding ds by simp
  have ne: "len_times (backend_of ex_w0) \<noteq> len_times (backend_of ex_w1)"
    by (simp add: backend_of_def len_times_def ex_w0_def ex_w1_def ex_epochs_def
        ex_epochs_long_def)
  have m: "ex_w0 \<in> set (datasets (concat_of ex_heap [ex_w0, ex_w1]))"
          "ex_w1 \<in> set (datasets (concat_of ex_heap [ex_w0, ex_w1]))"
    unfolding ds by simp_all
  from window_length_check_for_every_kind [OF sk agree m ne] sk eq ne show ?thesis by blast
qed

subsection \<open>The arguments of split\<close>

text \<open>
  Claim C4, as the source has it. With neither a property nor index groups, \<open>split\<close>
  raises the ValueError and changes nothing. With both, no error is raised for the
  arguments: the index groups are used and the property is ignored, so the call does
  exactly what the call with the index groups alone does.
\<close>

theorem split_argument_check:
  "split h c None None =
     (Inl (ValueError ''Splitting requires defining ids or a property.''), c, h) \<and>
   split h c (Some p) (Some ids) = split h c None (Some ids)"
  by (simp add: Spec2Isabelle.split_def)

text \<open>
  The claim as written fails when both arguments are given: on a concatenation of three
  recordings the call returns a dictionary.
\<close>

theorem split_argument_check_counterexample:
  "BaseConcatDataset_init ex_heap [ex_d0, ex_d1, ex_d2] =
     (Inr (concat_of (refresh_all ex_heap [ex_d0, ex_d1, ex_d2]) [ex_d0, ex_d1, ex_d2]),
      refresh_all ex_heap [ex_d0, ex_d1, ex_d2]) \<and>
   \<not> isl (fst (split (refresh_all ex_heap [ex_d0, ex_d1, ex_d2])
                  (concat_of (refresh_all ex_heap [ex_d0, ex_d1, ex_d2]) [ex_d0, ex_d1, ex_d2])
                  (Some ''subject'') (Some [[0, 2], [1]])))"
  by (simp add: BaseConcatDataset_init_eq Spec2Isabelle.split_def enumerate_ids_def
        concat_of_def datasets_getitem_def py_getitem_def split: prod.splits)

subsection \<open>Splitting by explicit index groups\<close>

lemma select_datasets_pick:
  "\<forall>i\<in>set g. 0 \<le> i \<and> i < int (length ds) \<Longrightarrow>
   select_datasets ds (map LInt g) = Inr (pick ds g)"
  by (induction g) (simp_all add: pick_def datasets_getitem_def py_getitem_def)

lemma build_splits_eq:
  assumes "list_all2 (\<lambda>g ks. fst ks = fst g \<and> select_datasets ds (snd g) = Inr (snd ks) \<and>
                        snd ks \<noteq> []) groups ksels"
  shows "build_splits h ds groups =
           (Inr (built_splits h ksels), foldl refresh_all h (map snd ksels))"
  using assms
proof (induction groups ksels arbitrary: h rule: list_all2_induct)
  case Nil
  then show ?case by simp
next
  case (Cons g gs ks kss)
  obtain name inds where g: "g = (name, inds)" by (cases g)
  obtain k sel where ks: "ks = (k, sel)" by (cases ks)
  from Cons.hyps(1) g ks have sel: "k = name" "select_datasets ds inds = Inr sel" "sel \<noteq> []"
    by simp_all
  show ?case
    by (simp add: g ks sel BaseConcatDataset_init_eq [OF sel(3)] Cons.IH)
qed

lemma built_splits_keys: "map fst (built_splits h ksels) = map fst ksels"
  by (induction h ksels rule: built_splits.induct) simp_all

lemma built_splits_length: "length (built_splits h ksels) = length ksels"
  by (induction h ksels rule: built_splits.induct) simp_all

lemma built_splits_nth:
  "k < length ksels \<Longrightarrow>
   \<exists>h0. built_splits h ksels ! k =
          (fst (ksels ! k), concat_of (refresh_all h0 (snd (ksels ! k))) (snd (ksels ! k)))"
proof (induction h ksels arbitrary: k rule: built_splits.induct)
  case (1 h)
  then show ?case by simp
next
  case (2 h key sel rest)
  show ?case
  proof (cases k)
    case 0
    then show ?thesis by auto
  next
    case (Suc k')
    with "2.prems" have "k' < length rest" by simp
    from "2.IH" [OF this] Suc show ?thesis by simp
  qed
qed

lemma built_splits_datasets:
  "map (\<lambda>kv. datasets (snd kv)) (built_splits h ksels) = map snd ksels"
  by (induction h ksels rule: built_splits.induct) (simp_all add: concat_of_def)

lemma refresh_all_append: "refresh_all h (xs @ ys) = refresh_all (refresh_all h xs) ys"
  by (induction xs arbitrary: h) (simp_all add: refresh_all_Nil refresh_all_Cons)

lemma foldl_refresh_all_singletons:
  "foldl refresh_all h (map (\<lambda>d. [d]) ds) = refresh_all h ds"
  by (induction ds arbitrary: h) (simp_all add: refresh_all_Nil refresh_all_Cons)

lemma refreshed_absorb: "refreshed d (refreshed d' s) = refreshed d s"
  by (simp add: refreshed_def)

lemma refresh_all_at:
  "refresh_all h ds a =
     (case last_writer a ds of None \<Rightarrow> h a | Some d \<Rightarrow> refreshed d (h a))"
proof (induction ds arbitrary: h)
  case Nil
  then show ?case by (simp add: refresh_all_Nil)
next
  case (Cons d ds)
  show ?case
    by (simp add: refresh_all_Cons Cons.IH refreshed_absorb split: option.splits)
qed

lemma refresh_all_idem: "refresh_all (refresh_all h ds) ds = refresh_all h ds"
proof
  fix a
  show "refresh_all (refresh_all h ds) ds a = refresh_all h ds a"
    by (simp add: refresh_all_at [of _ ds a] refreshed_absorb split: option.splits)
qed

lemma index_groups_length: "length (index_groups ds ids) = length ids"
  by (simp add: index_groups_def)

lemma index_groups_nth:
  "k < length ids \<Longrightarrow> index_groups ds ids ! k = (PNum (of_nat k), pick ds (ids ! k))"
  by (simp add: index_groups_def nth_enumerate_eq)

lemma index_groups_keys:
  "map fst (index_groups ds ids) = map (\<lambda>k. PNum (of_nat k)) [0 ..< length ids]"
  by (rule nth_equalityI) (simp_all add: index_groups_length index_groups_nth)

lemma index_groups_sels: "map snd (index_groups ds ids) = map (pick ds) ids"
  by (rule nth_equalityI) (simp_all add: index_groups_length index_groups_nth)

lemma split_ids_eq:
  assumes "\<forall>g\<in>set ids. g \<noteq> [] \<and> (\<forall>i\<in>set g. 0 \<le> i \<and> i < int (length (datasets c)))"
  shows "split h c some_property (Some ids) =
           (Inr (built_splits h (index_groups (datasets c) ids)), c,
            foldl refresh_all h (map (pick (datasets c)) ids))"
proof -
  let ?ds = "datasets c"
  have "list_all2 (\<lambda>g ks. fst ks = fst g \<and> select_datasets ?ds (snd g) = Inr (snd ks) \<and>
                        snd ks \<noteq> []) (enumerate_ids ids) (index_groups ?ds ids)"
  proof (rule list_all2_all_nthI)
    show "length (enumerate_ids ids) = length (index_groups ?ds ids)"
      by (simp add: enumerate_ids_def index_groups_def)
  next
    fix k assume "k < length (enumerate_ids ids)"
    then have k: "k < length ids" by (simp add: enumerate_ids_def)
    then have g: "ids ! k \<in> set ids" by simp
    with assms have valid: "ids ! k \<noteq> []"
      "\<forall>i\<in>set (ids ! k). 0 \<le> i \<and> i < int (length ?ds)" by blast+
    have "enumerate_ids ids ! k = (PNum (of_nat k), map LInt (ids ! k))"
      using k by (simp add: enumerate_ids_def nth_enumerate_eq)
    with valid(1) select_datasets_pick [OF valid(2)] k
    show "fst (index_groups ?ds ids ! k) = fst (enumerate_ids ids ! k) \<and>
          select_datasets ?ds (snd (enumerate_ids ids ! k)) = Inr (snd (index_groups ?ds ids ! k)) \<and>
          snd (index_groups ?ds ids ! k) \<noteq> []"
      by (simp add: index_groups_nth pick_def)
  qed
  from build_splits_eq [OF this, of h] show ?thesis
    by (simp add: Spec2Isabelle.split_def index_groups_sels)
qed

text \<open>
  Claim C6. For index groups that are non-empty lists of child positions, \<open>split\<close>
  returns a dictionary whose keys are the positions \<open>0, 1, 2, ...\<close> of the groups; the
  value at position \<open>k\<close> is a concatenation returned by the constructor for exactly the
  children at the indices of group \<open>k\<close>, in the order given, so its children are these and
  its length is the sum of their lengths. (A property given together with the groups
  plays no part.)
\<close>

theorem split_by_index_groups:
  assumes "\<forall>g\<in>set ids. g \<noteq> [] \<and> (\<forall>i\<in>set g. 0 \<le> i \<and> i < int (length (datasets c)))"
  shows "\<exists>kvs h'. split h c some_property (Some ids) = (Inr kvs, c, h') \<and>
           map fst kvs = map (\<lambda>k. PNum (of_nat k)) [0 ..< length ids] \<and>
           (\<forall>k<length ids.
              datasets (snd (kvs ! k)) = pick (datasets c) (ids ! k) \<and>
              ConcatDataset_len (snd (kvs ! k)) =
                Inr (sum_list (map dataset_len (pick (datasets c) (ids ! k)))) \<and>
              (\<exists>h0 h1. BaseConcatDataset_init h0 (pick (datasets c) (ids ! k)) =
                         (Inr (snd (kvs ! k)), h1)))"
proof -
  let ?ds = "datasets c"
  let ?kvs = "built_splits h (index_groups ?ds ids)"
  have keys: "map fst ?kvs = map (\<lambda>k. PNum (of_nat k)) [0 ..< length ids]"
    by (simp add: built_splits_keys index_groups_keys)
  have each: "datasets (snd (?kvs ! k)) = pick ?ds (ids ! k) \<and>
              ConcatDataset_len (snd (?kvs ! k)) =
                Inr (sum_list (map dataset_len (pick ?ds (ids ! k)))) \<and>
              (\<exists>h0 h1. BaseConcatDataset_init h0 (pick ?ds (ids ! k)) = (Inr (snd (?kvs ! k)), h1))"
    if k: "k < length ids" for k
  proof -
    from k have "ids ! k \<in> set ids" by simp
    with assms have ne: "pick ?ds (ids ! k) \<noteq> []" by (simp add: pick_def)
    from built_splits_nth [of k "index_groups ?ds ids" h] k obtain h0 where
      h0: "?kvs ! k = (PNum (of_nat k),
             concat_of (refresh_all h0 (pick ?ds (ids ! k))) (pick ?ds (ids ! k)))"
      by (auto simp: index_groups_length index_groups_nth)
    have "ConcatDataset_len (concat_of (refresh_all h0 (pick ?ds (ids ! k))) (pick ?ds (ids ! k))) =
            Inr (sum_list (map dataset_len (pick ?ds (ids ! k))))"
      by (rule ConcatDataset_len_eq [OF _ ne]) (simp add: concat_of_def)
    with h0 BaseConcatDataset_init_eq [OF ne, of h0] show ?thesis
      by (auto simp: concat_of_def)
  qed
  from split_ids_eq [OF assms, of h some_property] keys each show ?thesis by blast
qed

theorem split_by_index_groups_witness:
  "length (datasets (concat_of ex_heap ex_list)) = 3 \<and>
   (\<exists>kvs h'. split ex_heap (concat_of ex_heap ex_list) None (Some [[0, 2], [1]]) =
        (Inr kvs, concat_of ex_heap ex_list, h') \<and>
      map fst kvs = [PNum 0, PNum 1] \<and>
      datasets (snd (kvs ! 0)) = [ex_d0, ex_d2] \<and>
      ConcatDataset_len (snd (kvs ! 0)) = Inr (dataset_len ex_d0 + dataset_len ex_d2) \<and>
      datasets (snd (kvs ! 1)) = [ex_d_short] \<and>
      ConcatDataset_len (snd (kvs ! 1)) = Inr (dataset_len ex_d_short))"
proof -
  have ds: "datasets (concat_of ex_heap ex_list) = [ex_d0, ex_d_short, ex_d2]"
    by (simp add: concat_of_def ex_list_def)
  have valid: "\<forall>g\<in>set [[0, 2], [1]]. g \<noteq> [] \<and>
      (\<forall>i\<in>set g. 0 \<le> i \<and> i < int (length (datasets (concat_of ex_heap ex_list))))"
    unfolding ds by simp
  from split_by_index_groups [OF valid, of ex_heap None] obtain kvs h' where
    r: "split ex_heap (concat_of ex_heap ex_list) None (Some [[0, 2], [1]]) =
          (Inr kvs, concat_of ex_heap ex_list, h')"
       "map fst kvs = map (\<lambda>k. PNum (of_nat k)) [0 ..< length [[0, 2], [1::int]]]"
       "\<forall>k<length [[0, 2], [1::int]].
          datasets (snd (kvs ! k)) =
            pick (datasets (concat_of ex_heap ex_list)) ([[0, 2], [1]] ! k) \<and>
          ConcatDataset_len (snd (kvs ! k)) =
            Inr (sum_list (map dataset_len
                   (pick (datasets (concat_of ex_heap ex_list)) ([[0, 2], [1]] ! k))))"
    by blast
  from r(2) have keys: "map fst kvs = [PNum 0, PNum 1]"
    by simp
  from r(3) have "datasets (snd (kvs ! 0)) =
        pick (datasets (concat_of ex_heap ex_list)) ([[0, 2], [1]] ! 0) \<and>
      ConcatDataset_len (snd (kvs ! 0)) =
        Inr (sum_list (map dataset_len
               (pick (datasets (concat_of ex_heap ex_list)) ([[0, 2], [1]] ! 0))))"
    by (simp del: nth_Cons_0)
  then have g0: "datasets (snd (kvs ! 0)) = [ex_d0, ex_d2]"
      "ConcatDataset_len (snd (kvs ! 0)) = Inr (dataset_len ex_d0 + dataset_len ex_d2)"
    unfolding ds by (simp_all add: pick_def)
  from r(3) have "datasets (snd (kvs ! 1)) =
        pick (datasets (concat_of ex_heap ex_list)) ([[0, 2], [1]] ! 1) \<and>
      ConcatDataset_len (snd (kvs ! 1)) =
        Inr (sum_list (map dataset_len
               (pick (datasets (concat_of ex_heap ex_list)) ([[0, 2], [1]] ! 1))))"
    by (simp del: nth_Cons_Suc)
  then have g1: "datasets (snd (kvs ! 1)) = [ex_d_short]"
      "ConcatDataset_len (snd (kvs ! 1)) = Inr (dataset_len ex_d_short)"
    unfolding ds by (simp_all add: pick_def)
  have "\<exists>kvs h'. split ex_heap (concat_of ex_heap ex_list) None (Some [[0, 2], [1]]) =
        (Inr kvs, concat_of ex_heap ex_list, h') \<and>
      map fst kvs = [PNum 0, PNum 1] \<and>
      datasets (snd (kvs ! 0)) = [ex_d0, ex_d2] \<and>
      ConcatDataset_len (snd (kvs ! 0)) = Inr (dataset_len ex_d0 + dataset_len ex_d2) \<and>
      datasets (snd (kvs ! 1)) = [ex_d_short] \<and>
      ConcatDataset_len (snd (kvs ! 1)) = Inr (dataset_len ex_d_short)"
  proof (intro exI conjI)
    show "split ex_heap (concat_of ex_heap ex_list) None (Some [[0, 2], [1]]) =
            (Inr kvs, concat_of ex_heap ex_list, h')" by (fact r(1))
    show "map fst kvs = [PNum 0, PNum 1]" by (fact keys)
    show "datasets (snd (kvs ! 0)) = [ex_d0, ex_d2]" by (fact g0(1))
    show "ConcatDataset_len (snd (kvs ! 0)) = Inr (dataset_len ex_d0 + dataset_len ex_d2)"
      by (fact g0(2))
    show "datasets (snd (kvs ! 1)) = [ex_d_short]" by (fact g1(1))
    show "ConcatDataset_len (snd (kvs ! 1)) = Inr (dataset_len ex_d_short)" by (fact g1(2))
  qed
  moreover have "length (datasets (concat_of ex_heap ex_list)) = 3"
    unfolding ds by simp
  ultimately show ?thesis by simp
qed

text \<open>
  Claim C8. A concatenation is built from \<open>n > 0\<close> children and split into the singleton
  groups \<open>[0], [1], ..., [n-1]\<close>; the children of the resulting concatenations, taken in
  the order of the groups, are concatenated again. All three steps succeed, and the new
  concatenation has the same stored description table as the original (same rows, same
  order), so reading \<open>description\<close> gives the same result on both.
\<close>

theorem split_singletons_roundtrip:
  assumes "list_of_ds \<noteq> []"
  shows "\<exists>c h1 kvs h2 c' h3.
           BaseConcatDataset_init h list_of_ds = (Inr c, h1) \<and>
           split h1 c None (Some (map (\<lambda>k. [int k]) [0 ..< length list_of_ds])) =
             (Inr kvs, c, h2) \<and>
           BaseConcatDataset_init h2 (concat (map (\<lambda>kv. datasets (snd kv)) kvs)) =
             (Inr c', h3) \<and>
           cd_description c' = cd_description c \<and>
           BaseConcatDataset_description c' = BaseConcatDataset_description c"
proof -
  let ?h1 = "refresh_all h list_of_ds"
  let ?c = "concat_of ?h1 list_of_ds"
  let ?ids = "map (\<lambda>k. [int k]) [0 ..< length list_of_ds]"
  have init: "BaseConcatDataset_init h list_of_ds = (Inr ?c, ?h1)"
    by (rule BaseConcatDataset_init_eq [OF assms])
  have ds: "datasets ?c = list_of_ds" by (simp add: concat_of_def)
  have valid: "\<forall>g\<in>set ?ids. g \<noteq> [] \<and> (\<forall>i\<in>set g. 0 \<le> i \<and> i < int (length (datasets ?c)))"
    by (auto simp: ds)
  have sels: "map (pick list_of_ds) ?ids = map (\<lambda>d. [d]) list_of_ds"
    by (rule nth_equalityI) (simp_all add: pick_def)
  have split_eq: "split ?h1 ?c None (Some ?ids) =
                    (Inr (built_splits ?h1 (index_groups list_of_ds ?ids)), ?c, ?h1)"
  proof -
    have "foldl refresh_all ?h1 (map (pick list_of_ds) ?ids) = ?h1"
      by (simp only: sels foldl_refresh_all_singletons refresh_all_idem)
    with split_ids_eq [OF valid, of ?h1 None] show ?thesis
      unfolding ds by (simp only:)
  qed
  have rejoin: "concat (map (\<lambda>kv. datasets (snd kv))
                (built_splits ?h1 (index_groups list_of_ds ?ids))) = list_of_ds"
    by (simp add: built_splits_datasets index_groups_sels sels del: map_map)
  have again: "BaseConcatDataset_init ?h1 list_of_ds = (Inr ?c, ?h1)"
    using BaseConcatDataset_init_eq [OF assms, of ?h1] by (simp add: refresh_all_idem)
  have again': "BaseConcatDataset_init ?h1
      (concat (map (\<lambda>kv. datasets (snd kv)) (built_splits ?h1 (index_groups list_of_ds ?ids)))) =
      (Inr ?c, ?h1)"
    using again by (simp only: rejoin)
  from init split_eq again' show ?thesis by blast
qed

theorem split_singletons_roundtrip_witness:
  "[ex_d0, ex_d1, ex_d2] \<noteq> [] \<and>
   (\<exists>c h1 kvs h2 c' h3.
      BaseConcatDataset_init ex_heap [ex_d0, ex_d1, ex_d2] = (Inr c, h1) \<and>
      split h1 c None (Some [[0], [1], [2]]) = (Inr kvs, c, h2) \<and>
      BaseConcatDataset_init h2 (concat (map (\<lambda>kv. datasets (snd kv)) kvs)) = (Inr c', h3) \<and>
      cd_description c' = cd_description c \<and>
      BaseConcatDataset_description c' = BaseConcatDataset_description c)"
proof -
  have ne: "[ex_d0, ex_d1, ex_d2] \<noteq> []" by simp
  have ids: "map (\<lambda>k. [int k]) [0 ..< length [ex_d0, ex_d1, ex_d2]] = [[0], [1], [2]]"
    by simp
  from split_singletons_roundtrip [OF ne, of ex_heap] ne show ?thesis
    unfolding ids by blast
qed

subsection \<open>Splitting by a property\<close>

lemma collect_Inr_kind:
  "collect f t ds = Inr xs \<Longrightarrow>
   (t = ''raw'' \<longrightarrow> list_all hasattr_raw ds) \<and>
   (t = ''windows'' \<longrightarrow> list_all (\<lambda>d. \<not> hasattr_raw d) ds)"
  by (induction ds arbitrary: xs)
     (auto simp: getattr_backend_def hasattr_raw_def split: sum.splits dataset.splits if_splits)

lemma description_Inr_same_kind:
  assumes "BaseConcatDataset_description c = (Inr df, c1)"
  shows "same_kind (datasets c)"
proof -
  define t where "t = (if set (map hasattr_raw (datasets c)) = {True} then ''raw'' else ''windows'')"
  have t: "t = ''raw'' \<or> t = ''windows''" by (simp add: t_def)
  show ?thesis
  proof (cases "collect info_sfreq t (datasets c)")
    case (Inl e)
    with assms show ?thesis
      unfolding BaseConcatDataset_description_def Let_def t_def [symmetric] by simp
  next
    case (Inr fs)
    from collect_Inr_kind [OF this] t show ?thesis by (auto simp: same_kind_def)
  qed
qed

lemma map_fst_df_set_column: "map fst (df_set_column df k v) = map fst df"
  by (simp add: df_set_column_def comp_def)

lemma description_Inr:
  assumes "BaseConcatDataset_description c = (Inr df, c1)"
  shows "c1 = c\<lparr>cd_description := df\<rparr> \<and> map fst df = map fst (cd_description c)"
proof -
  note sk = description_Inr_same_kind [OF assms]
  from assms show ?thesis
    unfolding description_checks [OF sk]
    by (auto simp: Let_def map_fst_df_set_column split: if_splits list.splits)
qed

lemma filter_by_position:
  "filter Q rows = map (nth rows) (filter (Q \<circ> nth rows) [0 ..< length rows])"
proof -
  have "filter Q (map (nth rows) [0 ..< length rows]) =
          map (nth rows) (filter (Q \<circ> nth rows) [0 ..< length rows])"
    by (simp only: filter_map)
  then show ?thesis by (simp only: map_nth)
qed

lemma group_labels_positional:
  assumes "map fst df = map (\<lambda>i. LInt (int i)) [0 ..< length df]"
  shows "map fst (filter (\<lambda>lr. row_cell (snd lr) p = v) df) =
           map (\<lambda>i. LInt (int i)) (group_members df p v)"
proof -
  have lab: "fst (df ! i) = LInt (int i)" if "i < length df" for i
  proof -
    from that have "fst (df ! i) = map fst df ! i" by simp
    also have "\<dots> = LInt (int i)" using that unfolding assms by simp
    finally show ?thesis .
  qed
  have "map fst (filter (\<lambda>lr. row_cell (snd lr) p = v) df) =
          map (\<lambda>i. fst (df ! i)) (group_members df p v)"
    by (subst filter_by_position) (simp add: group_members_def comp_def)
  also have "\<dots> = map (\<lambda>i. LInt (int i)) (group_members df p v)"
    by (rule map_cong) (auto simp: group_members_def lab)
  finally show ?thesis .
qed

lemma select_datasets_positions:
  "\<forall>i\<in>set is. i < length ds \<Longrightarrow>
   select_datasets ds (map (\<lambda>i. LInt (int i)) is) = Inr (map (\<lambda>i. ds ! i) is)"
  by (induction "is") (simp_all add: datasets_getitem_def py_getitem_def)

lemma built_splits_mem:
  "kv \<in> set (built_splits h ksels) \<Longrightarrow>
   \<exists>ks\<in>set ksels. fst kv = fst ks \<and> datasets (snd kv) = snd ks"
  by (induction h ksels rule: built_splits.induct) (auto simp: concat_of_def)

lemma group_members_iff:
  "i \<in> set (group_members df p v) \<longleftrightarrow> i < length df \<and> row_cell (snd (df ! i)) p = v"
  by (auto simp: group_members_def)

lemma property_groups_keys:
  "map fst (property_groups ds df p) =
     remdups (filter (\<lambda>v. \<not> isna v) (map (\<lambda>lr. row_cell (snd lr) p) df))"
  by (simp add: property_groups_def comp_def)

lemma property_groups_mem:
  "ks \<in> set (property_groups ds df p) \<Longrightarrow>
   snd ks = map (\<lambda>i. ds ! i) (group_members df p (fst ks))"
  by (auto simp: property_groups_def)

lemma split_property_eq:
  assumes "BaseConcatDataset_description c = (Inr df, c1)"
    and "map fst (cd_description c) = map (\<lambda>i. LInt (int i)) [0 ..< length (datasets c)]"
    and "df_has_column df p"
  shows "split h c (Some p) None =
           (Inr (built_splits h (property_groups (datasets c) df p)), c1,
            foldl refresh_all h (map snd (property_groups (datasets c) df p))) \<and>
         length df = length (datasets c)"
proof -
  let ?ds = "datasets c"
  let ?cell = "\<lambda>lr. row_cell (snd lr) p"
  let ?keys = "remdups (filter (\<lambda>v. \<not> isna v) (map ?cell df))"
  let ?groups = "map (\<lambda>v. (v, map fst (filter (\<lambda>lr. ?cell lr = v) df))) ?keys"
  from description_Inr [OF assms(1)] have c1: "c1 = c\<lparr>cd_description := df\<rparr>"
    and labels: "map fst df = map fst (cd_description c)" by simp_all
  have len: "length df = length ?ds"
    using arg_cong [OF labels, of length] arg_cong [OF assms(2), of length] by simp
  have pos: "map fst df = map (\<lambda>i. LInt (int i)) [0 ..< length df]"
    unfolding labels assms(2) len ..
  have groups: "groupby_groups df (Some p) = Inr ?groups"
    using assms(3) by (simp add: groupby_groups_def)
  have rel: "list_all2 (\<lambda>g ks. fst ks = fst g \<and> select_datasets ?ds (snd g) = Inr (snd ks) \<and>
                        snd ks \<noteq> []) ?groups (property_groups ?ds df p)"
    unfolding property_groups_def list_all2_map1 list_all2_map2
  proof (rule list_all2_same [THEN iffD2], intro ballI)
    fix v assume "v \<in> set ?keys"
    then obtain i where i: "i < length df" "row_cell (snd (df ! i)) p = v"
      by (auto simp: in_set_conv_nth)
    then have ne: "group_members df p v \<noteq> []"
      using group_members_iff [of i df p v] by auto
    have "select_datasets ?ds (map (\<lambda>i. LInt (int i)) (group_members df p v)) =
            Inr (map (\<lambda>i. ?ds ! i) (group_members df p v))"
      by (rule select_datasets_positions) (simp add: group_members_iff len)
    with ne show "fst (v, map (\<lambda>i. ?ds ! i) (group_members df p v)) =
            fst (v, map fst (filter (\<lambda>lr. ?cell lr = v) df)) \<and>
          select_datasets ?ds (snd (v, map fst (filter (\<lambda>lr. ?cell lr = v) df))) =
            Inr (snd (v, map (\<lambda>i. ?ds ! i) (group_members df p v))) \<and>
          snd (v, map (\<lambda>i. ?ds ! i) (group_members df p v)) \<noteq> []"
      by (simp add: group_labels_positional [OF pos])
  qed
  have "split h c (Some p) None =
          (Inr (built_splits h (property_groups ?ds df p)), c1,
           foldl refresh_all h (map snd (property_groups ?ds df p)))"
    using build_splits_eq [OF rel, of h]
    by (simp add: Spec2Isabelle.split_def assms(1) groups c1)
  with len show ?thesis by simp
qed

text \<open>
  Claim C7, as the source has it. Take a concatenation whose \<open>description\<close> can be read
  (the read returns the table \<open>df\<close>), whose stored table labels its rows by child position
  \<open>0, 1, ..., n-1\<close>, and a field \<open>p\<close> that is a column of \<open>df\<close>. Then \<open>split\<close> by \<open>p\<close>
  returns a dictionary with one key per distinct value of the column that is not missing,
  the key being the value; the value under key \<open>v\<close> is a concatenation of exactly the
  children whose row has \<open>v\<close> in the column, in their order. Every child whose cell is not
  missing is in exactly one group; a child whose cell is missing (\<open>None\<close>, NaN, or a row
  without the field) is in no group.
\<close>

theorem split_by_property_groups:
  assumes "BaseConcatDataset_description c = (Inr df, c1)"
    and "map fst (cd_description c) = map (\<lambda>i. LInt (int i)) [0 ..< length (datasets c)]"
    and "df_has_column df p"
  shows "\<exists>kvs h'. split h c (Some p) None = (Inr kvs, c1, h') \<and>
           distinct (map fst kvs) \<and>
           set (map fst kvs) =
             {v. \<not> isna v \<and> (\<exists>i<length (datasets c). row_cell (snd (df ! i)) p = v)} \<and>
           (\<forall>kv\<in>set kvs.
              datasets (snd kv) = map (\<lambda>i. datasets c ! i) (group_members df p (fst kv))) \<and>
           (\<forall>i<length (datasets c). \<not> isna (row_cell (snd (df ! i)) p) \<longrightarrow>
              (\<exists>!v. v \<in> set (map fst kvs) \<and> i \<in> set (group_members df p v))) \<and>
           (\<forall>i<length (datasets c). isna (row_cell (snd (df ! i)) p) \<longrightarrow>
              (\<forall>v\<in>set (map fst kvs). i \<notin> set (group_members df p v)))"
proof -
  let ?ds = "datasets c"
  let ?cell = "\<lambda>lr. row_cell (snd lr) p"
  let ?keys = "remdups (filter (\<lambda>v. \<not> isna v) (map ?cell df))"
  let ?kvs = "built_splits h (property_groups ?ds df p)"
  from split_property_eq [OF assms, of h]
  have split_eq: "split h c (Some p) None =
      (Inr ?kvs, c1, foldl refresh_all h (map snd (property_groups ?ds df p)))"
    and len: "length df = length ?ds" by simp_all
  have keys_set: "set ?keys = {v. \<not> isna v \<and> (\<exists>i<length ?ds. row_cell (snd (df ! i)) p = v)}"
  proof (intro set_eqI iffI)
    fix v assume "v \<in> set ?keys"
    then have v: "\<not> isna v" "v \<in> set (map ?cell df)" by simp_all
    from v(2) obtain i where "i < length df" "?cell (df ! i) = v"
      unfolding in_set_conv_nth by auto
    with v(1) show "v \<in> {v. \<not> isna v \<and> (\<exists>i<length ?ds. row_cell (snd (df ! i)) p = v)}"
      unfolding len by blast
  next
    fix v assume "v \<in> {v. \<not> isna v \<and> (\<exists>i<length ?ds. row_cell (snd (df ! i)) p = v)}"
    then obtain i where v: "\<not> isna v" and i: "i < length df" "?cell (df ! i) = v"
      unfolding len by blast
    from i(1) have "df ! i \<in> set df" by simp
    then have "?cell (df ! i) \<in> set (map ?cell df)" by simp
    with v i(2) show "v \<in> set ?keys" by simp
  qed
  have keys: "map fst ?kvs = ?keys"
    by (simp add: built_splits_keys property_groups_keys)
  have dist: "distinct (map fst ?kvs)" unfolding keys by simp
  have keyset: "set (map fst ?kvs) =
                  {v. \<not> isna v \<and> (\<exists>i<length ?ds. row_cell (snd (df ! i)) p = v)}"
    unfolding keys by (rule keys_set)
  have members: "\<forall>kv\<in>set ?kvs.
          datasets (snd kv) = map (\<lambda>i. ?ds ! i) (group_members df p (fst kv))"
  proof
    fix kv assume "kv \<in> set ?kvs"
    from built_splits_mem [OF this] obtain ks where
      "ks \<in> set (property_groups ?ds df p)" "fst kv = fst ks" "datasets (snd kv) = snd ks"
      by blast
    with property_groups_mem [of ks ?ds df p] show
      "datasets (snd kv) = map (\<lambda>i. ?ds ! i) (group_members df p (fst kv))"
      by simp
  qed
  have one: "\<forall>i<length ?ds. \<not> isna (row_cell (snd (df ! i)) p) \<longrightarrow>
               (\<exists>!v. v \<in> set (map fst ?kvs) \<and> i \<in> set (group_members df p v))"
  proof (intro allI impI)
    fix i assume i: "i < length ?ds" "\<not> isna (row_cell (snd (df ! i)) p)"
    show "\<exists>!v. v \<in> set (map fst ?kvs) \<and> i \<in> set (group_members df p v)"
    proof (rule ex1I [of _ "row_cell (snd (df ! i)) p"])
      from i show "row_cell (snd (df ! i)) p \<in> set (map fst ?kvs) \<and>
                   i \<in> set (group_members df p (row_cell (snd (df ! i)) p))"
        unfolding keyset by (auto simp: group_members_iff len)
    next
      fix v assume "v \<in> set (map fst ?kvs) \<and> i \<in> set (group_members df p v)"
      then show "v = row_cell (snd (df ! i)) p" by (simp add: group_members_iff)
    qed
  qed
  have none: "\<forall>i<length ?ds. isna (row_cell (snd (df ! i)) p) \<longrightarrow>
               (\<forall>v\<in>set (map fst ?kvs). i \<notin> set (group_members df p v))"
    unfolding keyset by (auto simp: group_members_iff)
  from split_eq dist keyset members one none show ?thesis by blast
qed

text \<open>
  An example: three recordings of subjects 1, 2 and 1, with unnamed description rows.
\<close>

lemma ex_heap3:
  "refresh_all ex_heap [ex_d0, ex_d1, ex_d2] (desc_addr ex_d0) =
     \<lparr>s_name = None, s_items = [''subject'' \<mapsto> PNum 1, ''sfreq'' \<mapsto> PNum 250, ''n_channels'' \<mapsto> PNum 2]\<rparr>"
  "refresh_all ex_heap [ex_d0, ex_d1, ex_d2] (desc_addr ex_d1) =
     \<lparr>s_name = None, s_items = [''subject'' \<mapsto> PNum 2, ''sfreq'' \<mapsto> PNum 250, ''n_channels'' \<mapsto> PNum 2]\<rparr>"
  "refresh_all ex_heap [ex_d0, ex_d1, ex_d2] (desc_addr ex_d2) =
     \<lparr>s_name = None, s_items = [''subject'' \<mapsto> PNum 1, ''sfreq'' \<mapsto> PNum 250, ''n_channels'' \<mapsto> PNum 2]\<rparr>"
  by (simp_all add: refresh_all_Cons refresh_all_Nil refreshed_def desc_addr_def backend_of_def
      info_sfreq_def len_ch_names_def ex_d0_def ex_d1_def ex_d2_def ex_heap_def ex_raw_a_def
      ex_raw_b_def)

lemma ex_concat3_table:
  "cd_description ex_concat3 =
     [(LInt 0, [''subject'' \<mapsto> PNum 1, ''sfreq'' \<mapsto> PNum 250, ''n_channels'' \<mapsto> PNum 2]),
      (LInt 1, [''subject'' \<mapsto> PNum 2, ''sfreq'' \<mapsto> PNum 250, ''n_channels'' \<mapsto> PNum 2]),
      (LInt 2, [''subject'' \<mapsto> PNum 1, ''sfreq'' \<mapsto> PNum 250, ''n_channels'' \<mapsto> PNum 2])]"
  by (simp add: ex_concat3_def concat_of_def DataFrame_from_series_def ex_heap3)

lemma ex_table3_cells:
  "length ex_table3 = Suc (Suc (Suc 0))"
  "row_cell (snd (ex_table3 ! 0)) ''subject'' = PNum 1"
  "row_cell (snd (ex_table3 ! Suc 0)) ''subject'' = PNum 2"
  "row_cell (snd (ex_table3 ! Suc (Suc 0))) ''subject'' = PNum 1"
  by (simp_all add: ex_table3_def ex_concat3_table df_set_column_def row_cell_def)

lemma ex_concat3_read:
  "BaseConcatDataset_description ex_concat3 =
     (Inr ex_table3, ex_concat3\<lparr>cd_description := ex_table3\<rparr>)"
proof -
  have ds: "datasets ex_concat3 = [ex_d0, ex_d1, ex_d2]"
    by (simp add: ex_concat3_def concat_of_def)
  have sk: "same_kind (datasets ex_concat3)"
    unfolding ds by (simp add: same_kind_def hasattr_raw_def ex_d0_def ex_d1_def ex_d2_def)
  have vals: "sfreqs ex_concat3 = [250, 250, 250]" "channel_counts ex_concat3 = [2, 2, 2]"
    "time_lengths ex_concat3 = [3, 3, 3]"
    unfolding sfreqs_def channel_counts_def time_lengths_def ds
    by (simp_all add: backend_of_def info_sfreq_def len_ch_names_def len_times_def
        raw_times_len_def ex_d0_def ex_d1_def ex_d2_def ex_raw_a_def ex_raw_b_def)
  have first: "info_sfreq (backend_of ex_d0) = 250" "len_ch_names (backend_of ex_d0) = 2"
    "len_times (backend_of ex_d0) = 3"
    by (simp_all add: backend_of_def info_sfreq_def len_ch_names_def len_times_def
        raw_times_len_def ex_d0_def ex_raw_a_def)
  show ?thesis
    unfolding description_checks [OF sk] vals ds
    by (simp add: first ex_table3_def Let_def)
qed

theorem split_by_property_groups_witness:
  "BaseConcatDataset_description ex_concat3 =
     (Inr ex_table3, ex_concat3\<lparr>cd_description := ex_table3\<rparr>) \<and>
   map fst (cd_description ex_concat3) = [LInt 0, LInt 1, LInt 2] \<and>
   df_has_column ex_table3 ''subject'' \<and>
   (\<exists>kvs h'. split (refresh_all ex_heap [ex_d0, ex_d1, ex_d2]) ex_concat3 (Some ''subject'') None =
        (Inr kvs, ex_concat3\<lparr>cd_description := ex_table3\<rparr>, h') \<and>
      distinct (map fst kvs) \<and>
      set (map fst kvs) = {PNum 1, PNum 2} \<and>
      (\<forall>kv\<in>set kvs. fst kv = PNum 1 \<longrightarrow> datasets (snd kv) = [ex_d0, ex_d2]) \<and>
      (\<forall>kv\<in>set kvs. fst kv = PNum 2 \<longrightarrow> datasets (snd kv) = [ex_d1]))"
proof -
  have ds: "datasets ex_concat3 = [ex_d0, ex_d1, ex_d2]"
    by (simp add: ex_concat3_def concat_of_def)
  have labels: "map fst (cd_description ex_concat3) =
                  map (\<lambda>i. LInt (int i)) [0 ..< length (datasets ex_concat3)]"
    unfolding ds by (simp add: ex_concat3_table)
  have col: "df_has_column ex_table3 ''subject''"
    by (simp add: df_has_column_def ex_table3_def ex_concat3_table df_set_column_def)
  have m1: "group_members ex_table3 ''subject'' (PNum 1) = [0, Suc (Suc 0)]"
    and m2: "group_members ex_table3 ''subject'' (PNum 2) = [Suc 0]"
    using ex_table3_cells by (simp_all add: group_members_def)
  from split_by_property_groups [OF ex_concat3_read labels col,
      of "refresh_all ex_heap [ex_d0, ex_d1, ex_d2]"]
  obtain kvs h' where
    r: "split (refresh_all ex_heap [ex_d0, ex_d1, ex_d2]) ex_concat3 (Some ''subject'') None =
          (Inr kvs, ex_concat3\<lparr>cd_description := ex_table3\<rparr>, h')"
       "distinct (map fst kvs)"
       "set (map fst kvs) =
          {v. \<not> isna v \<and>
              (\<exists>i<length (datasets ex_concat3). row_cell (snd (ex_table3 ! i)) ''subject'' = v)}"
       "\<forall>kv\<in>set kvs. datasets (snd kv) =
          map (\<lambda>i. datasets ex_concat3 ! i) (group_members ex_table3 ''subject'' (fst kv))"
    by (elim exE conjE)
  have keyset: "set (map fst kvs) = {PNum 1, PNum 2}"
    unfolding r(3) ds using ex_table3_cells
    by (auto simp: isna_def less_Suc_eq)
  have g1: "\<forall>kv\<in>set kvs. fst kv = PNum 1 \<longrightarrow> datasets (snd kv) = [ex_d0, ex_d2]"
    using r(4) by (auto simp: m1 ds)
  have g2: "\<forall>kv\<in>set kvs. fst kv = PNum 2 \<longrightarrow> datasets (snd kv) = [ex_d1]"
    using r(4) by (auto simp: m2 ds)
  have "\<exists>kvs h'. split (refresh_all ex_heap [ex_d0, ex_d1, ex_d2]) ex_concat3 (Some ''subject'') None =
        (Inr kvs, ex_concat3\<lparr>cd_description := ex_table3\<rparr>, h') \<and>
      distinct (map fst kvs) \<and>
      set (map fst kvs) = {PNum 1, PNum 2} \<and>
      (\<forall>kv\<in>set kvs. fst kv = PNum 1 \<longrightarrow> datasets (snd kv) = [ex_d0, ex_d2]) \<and>
      (\<forall>kv\<in>set kvs. fst kv = PNum 2 \<longrightarrow> datasets (snd kv) = [ex_d1])"
  proof (intro exI conjI)
    show "split (refresh_all ex_heap [ex_d0, ex_d1, ex_d2]) ex_concat3 (Some ''subject'') None =
            (Inr kvs, ex_concat3\<lparr>cd_description := ex_table3\<rparr>, h')" by (fact r(1))
    show "distinct (map fst kvs)" by (fact r(2))
    show "set (map fst kvs) = {PNum 1, PNum 2}" by (fact keyset)
    show "\<forall>kv\<in>set kvs. fst kv = PNum 1 \<longrightarrow> datasets (snd kv) = [ex_d0, ex_d2]" by (fact g1)
    show "\<forall>kv\<in>set kvs. fst kv = PNum 2 \<longrightarrow> datasets (snd kv) = [ex_d1]" by (fact g2)
  qed
  moreover have "map fst (cd_description ex_concat3) = [LInt 0, LInt 1, LInt 2]"
    by (simp add: ex_concat3_table)
  ultimately show ?thesis using ex_concat3_read col by simp
qed

text \<open>
  The claim as written fails when a child has no value for the field: of two recordings,
  the second without a \<open>subject\<close>, the table has the column, and the split returns the
  single group of subject 1 holding the first recording; the second is in no group.
\<close>

lemma ex_heap_na:
  "refresh_all ex_heap [ex_d0, ex_d_nosubject] (desc_addr ex_d0) =
     \<lparr>s_name = None, s_items = [''subject'' \<mapsto> PNum 1, ''sfreq'' \<mapsto> PNum 250, ''n_channels'' \<mapsto> PNum 2]\<rparr>"
  "refresh_all ex_heap [ex_d0, ex_d_nosubject] (desc_addr ex_d_nosubject) =
     \<lparr>s_name = None, s_items = [''sfreq'' \<mapsto> PNum 250, ''n_channels'' \<mapsto> PNum 2]\<rparr>"
  by (simp_all add: refresh_all_Cons refresh_all_Nil refreshed_def desc_addr_def backend_of_def
      info_sfreq_def len_ch_names_def ex_d0_def ex_d_nosubject_def ex_heap_def ex_raw_a_def
      ex_raw_b_def)

lemma ex_concat_na_table:
  "cd_description ex_concat_na =
     [(LInt 0, [''subject'' \<mapsto> PNum 1, ''sfreq'' \<mapsto> PNum 250, ''n_channels'' \<mapsto> PNum 2]),
      (LInt 1, [''sfreq'' \<mapsto> PNum 250, ''n_channels'' \<mapsto> PNum 2])]"
  by (simp add: ex_concat_na_def concat_of_def DataFrame_from_series_def ex_heap_na)

lemma ex_concat_na_read:
  "BaseConcatDataset_description ex_concat_na =
     (Inr ex_table_na, ex_concat_na\<lparr>cd_description := ex_table_na\<rparr>)"
proof -
  have ds: "datasets ex_concat_na = [ex_d0, ex_d_nosubject]"
    by (simp add: ex_concat_na_def concat_of_def)
  have sk: "same_kind (datasets ex_concat_na)"
    unfolding ds by (simp add: same_kind_def hasattr_raw_def ex_d0_def ex_d_nosubject_def)
  have vals: "sfreqs ex_concat_na = [250, 250]" "channel_counts ex_concat_na = [2, 2]"
    "time_lengths ex_concat_na = [3, 3]"
    unfolding sfreqs_def channel_counts_def time_lengths_def ds
    by (simp_all add: backend_of_def info_sfreq_def len_ch_names_def len_times_def
        raw_times_len_def ex_d0_def ex_d_nosubject_def ex_raw_a_def ex_raw_b_def)
  have first: "info_sfreq (backend_of ex_d0) = 250" "len_ch_names (backend_of ex_d0) = 2"
    "len_times (backend_of ex_d0) = 3"
    by (simp_all add: backend_of_def info_sfreq_def len_ch_names_def len_times_def
        raw_times_len_def ex_d0_def ex_raw_a_def)
  show ?thesis
    unfolding description_checks [OF sk] vals ds
    by (simp add: first ex_table_na_def Let_def)
qed

lemma ex_table_na_cells:
  "length ex_table_na = Suc (Suc 0)"
  "row_cell (snd (ex_table_na ! 0)) ''subject'' = PNum 1"
  "row_cell (snd (ex_table_na ! Suc 0)) ''subject'' = PNaN"
  "map (\<lambda>lr. row_cell (snd lr) ''subject'') ex_table_na = [PNum 1, PNaN]"
  by (simp_all add: ex_table_na_def ex_concat_na_table df_set_column_def row_cell_def)

theorem split_by_property_missing_value_counterexample:
  "BaseConcatDataset_init ex_heap [ex_d0, ex_d_nosubject] =
     (Inr ex_concat_na, refresh_all ex_heap [ex_d0, ex_d_nosubject]) \<and>
   df_has_column (cd_description ex_concat_na) ''subject'' \<and>
   map_sum id (map fst)
     (fst (split (refresh_all ex_heap [ex_d0, ex_d_nosubject]) ex_concat_na
             (Some ''subject'') None)) = Inr [PNum 1] \<and>
   map_sum id (map (datasets \<circ> snd))
     (fst (split (refresh_all ex_heap [ex_d0, ex_d_nosubject]) ex_concat_na
             (Some ''subject'') None)) = Inr [[ex_d0]] \<and>
   ex_d_nosubject \<noteq> ex_d0"
proof -
  have init: "BaseConcatDataset_init ex_heap [ex_d0, ex_d_nosubject] =
     (Inr ex_concat_na, refresh_all ex_heap [ex_d0, ex_d_nosubject])"
    by (simp add: BaseConcatDataset_init_eq ex_concat_na_def)
  have col0: "df_has_column (cd_description ex_concat_na) ''subject''"
    by (simp add: df_has_column_def ex_concat_na_table)
  have col: "df_has_column ex_table_na ''subject''"
    by (simp add: df_has_column_def ex_table_na_def ex_concat_na_table df_set_column_def)
  have ds: "datasets ex_concat_na = [ex_d0, ex_d_nosubject]"
    by (simp add: ex_concat_na_def concat_of_def)
  have labels: "map fst (cd_description ex_concat_na) =
                  map (\<lambda>i. LInt (int i)) [0 ..< length (datasets ex_concat_na)]"
    unfolding ds by (simp add: ex_concat_na_table)
  have members: "group_members ex_table_na ''subject'' (PNum 1) = [0]"
    using ex_table_na_cells(1-3) by (simp add: group_members_def)
  have groups: "property_groups (datasets ex_concat_na) ex_table_na ''subject'' =
                  [(PNum 1, [ex_d0])]"
    unfolding property_groups_def ex_table_na_cells(4) ds
    by (simp add: isna_def members)
  from split_property_eq [OF ex_concat_na_read labels col,
      of "refresh_all ex_heap [ex_d0, ex_d_nosubject]"]
  have "fst (split (refresh_all ex_heap [ex_d0, ex_d_nosubject]) ex_concat_na
               (Some ''subject'') None) =
          Inr (built_splits (refresh_all ex_heap [ex_d0, ex_d_nosubject]) [(PNum 1, [ex_d0])])"
    unfolding groups by simp
  then have res: "map_sum id (map fst)
     (fst (split (refresh_all ex_heap [ex_d0, ex_d_nosubject]) ex_concat_na
             (Some ''subject'') None)) = Inr [PNum 1]"
    "map_sum id (map (datasets \<circ> snd))
     (fst (split (refresh_all ex_heap [ex_d0, ex_d_nosubject]) ex_concat_na
             (Some ''subject'') None)) = Inr [[ex_d0]]"
    by (simp_all add: concat_of_def)
  have ne: "ex_d_nosubject \<noteq> ex_d0"
    by (simp add: ex_d_nosubject_def ex_d0_def)
  from init col0 res ne show ?thesis by simp
qed

end
